theory Spec2Isabelle
  imports Complex_Main "HOL-Library.Word"
begin

section \<open>Strings\<close>

text \<open>
  A JavaScript string is a sequence of 16-bit code units; \<open>length\<close>, \<open>slice\<close> and
  \<open>trim\<close> all count and cut code units. String literals of the source are written with
  \<open>lit\<close>, which maps each (ASCII) character to its code unit.
\<close>

type_synonym jschar = "16 word"
type_synonym jsstring = "jschar list"

definition code_unit :: "char \<Rightarrow> jschar" where
  "code_unit c = word_of_nat (of_char c)"

definition lit :: "string \<Rightarrow> jsstring" where
  "lit s = map code_unit s"

section \<open>Style Instruction Resolver\<close>

text \<open>
  Modelled from the spec: the \<open>types\<close> module, which declares \<open>StoryStyle\<close>, is not among the
  sources; the spec lists its variants NOIR, CHILDREN, HISTORICAL, FANTASY and DEFAULT, and
  the route planner writes a style as the string of its name. At run time a style is a
  string, and the \<open>switch\<close> of \<open>getStyleInstruction\<close> compares it with four string literals,
  every other value reaching the \<open>default\<close> branch.
\<close>

type_synonym StoryStyle = jsstring

definition NOIR :: StoryStyle where "NOIR = lit ''NOIR''"
definition CHILDREN :: StoryStyle where "CHILDREN = lit ''CHILDREN''"
definition HISTORICAL :: StoryStyle where "HISTORICAL = lit ''HISTORICAL''"
definition FANTASY :: StoryStyle where "FANTASY = lit ''FANTASY''"
definition DEFAULT :: StoryStyle where "DEFAULT = lit ''DEFAULT''"

definition NOIR_INSTRUCTION :: jsstring where
  "NOIR_INSTRUCTION =
     lit ''Style: Noir Thriller. Gritty, cynical, atmospheric. Use inner monologue. The traveler is a detective or someone with a troubled past. The city is a character itself''
     @ [0xE2, 0x20AC, 0x201D]
     @ lit ''dark, rainy, hiding secrets. Use metaphors of shadows, smoke, and cold neon.''"

definition CHILDREN_INSTRUCTION :: jsstring where
  "CHILDREN_INSTRUCTION =
     lit ''Style: Children's Story. Whimsical, magical, full of wonder and gentle humor. The world is bright and alive; maybe inanimate objects (like traffic lights or trees) have slight personalities. Simple but evocative language. A sense of delightful discovery.''"

definition HISTORICAL_INSTRUCTION :: jsstring where
  "HISTORICAL_INSTRUCTION =
     lit ''Style: Historical Epic. Grandiose, dramatic, and timeless. Treat the journey as a significant pilgrimage or quest in a bygone era (even though it's modern day, overlay it with historical grandeur). Use slightly archaic but understandable language. Focus on endurance, destiny, and the weight of history.''"

definition FANTASY_INSTRUCTION :: jsstring where
  "FANTASY_INSTRUCTION =
     lit ''Style: Fantasy Adventure. Heroic, mystical, and epic. The real world is just a veil over a magical realm. Streets are ancient paths, buildings are towers or ruins. The traveler is on a vital quest. Use metaphors of magic, mythical creatures (shadows might be lurking beasts), and destiny.''"

definition DEFAULT_INSTRUCTION :: jsstring where
  "DEFAULT_INSTRUCTION =
     lit ''Style: Immersive, 'in the moment' narration. Focus on the sensation of movement and the immediate environment.''"

definition getStyleInstruction :: "StoryStyle \<Rightarrow> jsstring" where
  "getStyleInstruction style =
     (if style = NOIR then NOIR_INSTRUCTION
      else if style = CHILDREN then CHILDREN_INSTRUCTION
      else if style = HISTORICAL then HISTORICAL_INSTRUCTION
      else if style = FANTASY then FANTASY_INSTRUCTION
      else DEFAULT_INSTRUCTION)"

section \<open>Numbers\<close>

text \<open>
  A JavaScript \<open>number\<close> is an IEEE 754 double. The service only handles finite numbers
  that are not negative, so a number is modelled as \<open>m \<times> 2\<^sup>e\<close> with a mantissa \<open>m\<close> of at
  most 53 bits, and every arithmetic operation rounds its exact result to the nearest such
  value, ties to the even mantissa. The exponent is not bounded: all values that occur below
  lie far inside the range of normal doubles, where neither overflow nor gradual underflow
  happens.
\<close>

datatype double = Double (mantissa: nat) (exponent: int)

definition value_of :: "double \<Rightarrow> rat" where
  "value_of d =
     (if 0 \<le> exponent d then of_nat (mantissa d) * 2 ^ nat (exponent d)
      else of_nat (mantissa d) / 2 ^ nat (- exponent d))"

fun bit_length :: "nat \<Rightarrow> nat" where
  "bit_length n = (if n = 0 then 0 else Suc (bit_length (n div 2)))"

declare bit_length.simps [simp del]

text \<open>\<open>round_shift k s\<close> is \<open>k / 2\<^sup>s\<close> rounded to the nearest integer, ties to even.\<close>

definition round_shift :: "nat \<Rightarrow> nat \<Rightarrow> nat" where
  "round_shift k s =
     (let q = k div 2 ^ s; r = k mod 2 ^ s
      in if 2 * r < 2 ^ s then q
         else if 2 ^ s < 2 * r then q + 1
         else if even q then q else q + 1)"

text \<open>\<open>round53 k e\<close> is the double nearest to the exact value \<open>k \<times> 2\<^sup>e\<close>.\<close>

definition round53 :: "nat \<Rightarrow> int \<Rightarrow> double" where
  "round53 k e = (let s = bit_length k - 53 in Double (round_shift k s) (e + int s))"

definition of_length :: "nat \<Rightarrow> double" where
  "of_length n = round53 n 0"

definition fmul :: "double \<Rightarrow> double \<Rightarrow> double" where
  "fmul a b = round53 (mantissa a * mantissa b) (exponent a + exponent b)"

text \<open>
  The quotient of \<open>a\<close> by a divisor \<open>b\<close> other than zero: the exact quotient is cut after
  more than 55 bits, with a last bit that records whether anything was cut off, and then
  rounded.
\<close>

definition fdiv :: "double \<Rightarrow> double \<Rightarrow> double" where
  "fdiv a b =
     (let t = bit_length (mantissa b) + 55;
          n = mantissa a * 2 ^ t;
          q = n div mantissa b;
          sticky = (if n mod mantissa b = 0 then 0 else 1)
      in round53 (2 * q + sticky) (exponent a - exponent b - int t - 1))"

definition floor_d :: "double \<Rightarrow> int" where
  "floor_d d =
     (if 0 \<le> exponent d then int (mantissa d * 2 ^ nat (exponent d))
      else int (mantissa d div 2 ^ nat (- exponent d)))"

definition ceil_d :: "double \<Rightarrow> int" where
  "ceil_d d =
     (if 0 \<le> exponent d then int (mantissa d * 2 ^ nat (exponent d))
      else int ((mantissa d + 2 ^ nat (- exponent d) - 1) div 2 ^ nat (- exponent d)))"

text \<open>The literal \<open>0.08\<close> denotes the double nearest to 8/100.\<close>

definition d_0_08 :: double where
  "d_0_08 = Double 5764607523034235 (- 56)"

section \<open>Library functions\<close>

text \<open>\<open>String.prototype.trim\<close> removes white space and line terminators at both ends.\<close>

definition isWhiteSpace :: "jschar \<Rightarrow> bool" where
  "isWhiteSpace c \<longleftrightarrow>
     c \<in> set [0x09, 0x0A, 0x0B, 0x0C, 0x0D, 0x20, 0xA0, 0x1680,
              0x2000, 0x2001, 0x2002, 0x2003, 0x2004, 0x2005, 0x2006, 0x2007, 0x2008, 0x2009,
              0x200A, 0x2028, 0x2029, 0x202F, 0x205F, 0x3000, 0xFEFF]"

definition trim :: "jsstring \<Rightarrow> jsstring" where
  "trim s = rev (dropWhile isWhiteSpace (rev (dropWhile isWhiteSpace s)))"

text \<open>
  \<open>slice(start, end)\<close> of strings and arrays: a negative index counts from the end, and
  both indices are clamped to the length.
\<close>

definition relative_index :: "int \<Rightarrow> nat \<Rightarrow> nat" where
  "relative_index i len = (if i < 0 then nat (max (int len + i) 0) else min (nat i) len)"

definition slice :: "int \<Rightarrow> int \<Rightarrow> 'a list \<Rightarrow> 'a list" where
  "slice start finish xs =
     (let from = relative_index start (length xs);
          to = relative_index finish (length xs)
      in take (to - from) (drop from xs))"

definition slice_from :: "int \<Rightarrow> 'a list \<Rightarrow> 'a list" where
  "slice_from start xs = slice start (int (length xs)) xs"

text \<open>
  An integer in a template literal is printed in decimal (JavaScript does so for every
  integer below \<open>10\<^sup>2\<^sup>1\<close> in absolute value).
\<close>

fun digits :: "nat \<Rightarrow> jsstring" where
  "digits n =
     (if n < 10 then [word_of_nat (48 + n)]
      else digits (n div 10) @ [word_of_nat (48 + n mod 10)])"

declare digits.simps [simp del]

definition numberToString :: "int \<Rightarrow> jsstring" where
  "numberToString n = (if n < 0 then lit ''-'' @ digits (nat (- n)) else digits (nat n))"

text \<open>
  The regular expression \<open>/\[.*\]/s\<close>: the match starts at the leftmost \<open>[\<close> from which it
  can succeed; \<open>.*\<close> is greedy and, under the \<open>s\<close> flag, takes any code unit, so it runs to
  the end of the text and backs off to the last \<open>]\<close>.
\<close>

definition LBRACKET :: jschar where "LBRACKET = 0x5B"
definition RBRACKET :: jschar where "RBRACKET = 0x5D"

text \<open>The longest prefix of the text that ends with \<open>]\<close>, if there is one.\<close>

fun greedy_to_rbracket :: "jsstring \<Rightarrow> jsstring option" where
  "greedy_to_rbracket [] = None"
| "greedy_to_rbracket (c # cs) =
     (case greedy_to_rbracket cs of
        Some m \<Rightarrow> Some (c # m)
      | None \<Rightarrow> if c = RBRACKET then Some [c] else None)"

definition match_here :: "jsstring \<Rightarrow> jsstring option" where
  "match_here s =
     (case s of
        [] \<Rightarrow> None
      | c # cs \<Rightarrow>
          if c = LBRACKET then map_option (Cons c) (greedy_to_rbracket cs) else None)"

fun match_array :: "jsstring \<Rightarrow> jsstring option" where
  "match_array [] = None"
| "match_array (c # cs) =
     (case match_here (c # cs) of
        Some m \<Rightarrow> Some m
      | None \<Rightarrow> match_array cs)"

section \<open>Data model\<close>

text \<open>
  The journey, as \<open>RoutePlanner.handleCalculate\<close> builds it. The travel mode is one of the
  two literals \<open>'WALKING'\<close> and \<open>'DRIVING'\<close>, which \<open>toLowerCase\<close> turns into \<open>walking\<close> and
  \<open>driving\<close>.
\<close>

datatype TravelMode = WALKING | DRIVING

fun toLowerCase :: "TravelMode \<Rightarrow> jsstring" where
  "toLowerCase WALKING = lit ''walking''"
| "toLowerCase DRIVING = lit ''driving''"

record RouteDetails =
  startAddress :: jsstring
  endAddress :: jsstring
  distance :: jsstring
  duration :: jsstring
  durationSeconds :: double
  travelMode :: TravelMode
  voiceName :: jsstring
  storyStyle :: StoryStyle

text \<open>
  The audio buffer that \<open>createBuffer\<close> of the Web Audio interface returns: its channels
  hold \<open>frames\<close> samples each, all zero at first.
\<close>

record AudioBuffer =
  numberOfChannels :: nat
  frames :: nat
  sampleRate :: nat
  channelData :: "rat list list"

record StorySegment =
  index :: int "text" :: jsstring
  audioBuffer :: "AudioBuffer option"

text \<open>
  What \<open>JSON.parse\<close> returns, and what the \<open>content\<close> of a completion can be. A number is
  kept as the value it denotes.
\<close>

datatype json =
    JNull
  | JBool bool
  | JNumber rat
  | JString jsstring
  | JArray "json list"
  | JObject "(jsstring \<times> json) list"

text \<open>Whatever is thrown: an \<open>Error\<close> with its message, or one of the built-in errors.\<close>

datatype error = Error jsstring | TypeError | SyntaxError | NotSupportedError | IndexSizeError

record message =
  role :: jsstring
  content :: jsstring

section \<open>Segment Sizing Calculator\<close>

definition TARGET_SEGMENT_DURATION_SEC :: double where
  "TARGET_SEGMENT_DURATION_SEC = Double 60 0"

definition WORDS_PER_MINUTE :: double where
  "WORDS_PER_MINUTE = Double 145 0"

text \<open>\<open>Math.round\<close> of a double that is not negative: \<open>floor (x + 1/2)\<close>.\<close>

definition round_d :: "double \<Rightarrow> int" where
  "round_d d =
     (if 0 \<le> exponent d then int (mantissa d * 2 ^ nat (exponent d))
      else int ((2 * mantissa d + 2 ^ nat (- exponent d)) div (2 * 2 ^ nat (- exponent d))))"

definition WORDS_PER_SEGMENT :: int where
  "WORDS_PER_SEGMENT =
     round_d (fmul (fdiv TARGET_SEGMENT_DURATION_SEC (Double 60 0)) WORDS_PER_MINUTE)"

definition calculateTotalSegments :: "double \<Rightarrow> int" where
  "calculateTotalSegments durationSeconds' =
     max 1 (ceil_d (fdiv durationSeconds' TARGET_SEGMENT_DURATION_SEC))"

section \<open>Completion requests\<close>

text \<open>
  \<open>makeHackClubRequest\<close> posts the messages and gives back \<open>data.choices[0].message.content\<close>,
  or throws: when the network fails, when the status is not ok, when the body is not of that
  shape. It is a parameter of the generators below: a function from the messages sent to
  what is thrown (\<open>Inl\<close>) or returned (\<open>Inr\<close>, with \<open>None\<close> for \<open>undefined\<close>). \<open>JSON.parse\<close> is
  a parameter too, \<open>None\<close> standing for its \<open>SyntaxError\<close>.
\<close>

type_synonym completion = "message list \<Rightarrow> error + json option"
type_synonym parser = "jsstring \<Rightarrow> json option"

text \<open>
  \<open>response?.trim()\<close>: \<open>undefined\<close> for \<open>undefined\<close> and \<open>null\<close>, the trimmed text for a
  string, and a \<open>TypeError\<close> for any other value, which has no \<open>trim\<close> to call.
\<close>

fun optional_trim :: "json option \<Rightarrow> error + jsstring option" where
  "optional_trim None = Inr None"
| "optional_trim (Some JNull) = Inr None"
| "optional_trim (Some (JString s)) = Inr (Some (trim s))"
| "optional_trim (Some _) = Inl TypeError"

section \<open>Outline Generator\<close>

definition outlinePrompt :: "RouteDetails \<Rightarrow> nat \<Rightarrow> jsstring" where
  \<open>outlinePrompt route totalSegments =
     (let styleInstruction = getStyleInstruction (storyStyle route)
      in lit ''\<newline>    You are an expert storyteller. Write an outline for a story that is exactly ''
       @ numberToString (int totalSegments)
       @ lit '' chapters long and has a complete cohesive story arc with a clear set up, inciting incident, rising action, climax, success, falling action, and resolution. \<newline>\<newline>    Your outline should be tailored to match this journey:\<newline>\<newline>    Journey: ''
       @ startAddress route
       @ lit '' to ''
       @ endAddress route
       @ lit '' by ''
       @ toLowerCase (travelMode route)
       @ lit ''.\<newline>    Total Duration: Approx ''
       @ duration route
       @ lit ''.\<newline>    Total Narrative Segments needed: ''
       @ numberToString (int totalSegments)
       @ lit ''.\<newline>    \<newline>    ''
       @ styleInstruction
       @ lit ''\<newline>\<newline>    Output strictly valid JSON: An array of ''
       @ numberToString (int totalSegments)
       @ lit '' strings. Example: ["Chapter 1 summary...", "Chapter 2 summary...", ...]\<newline>    '')\<close>

definition CONTINUATION :: json where
  "CONTINUATION = JString (lit ''Continue the journey towards the destination.'')"

definition PLACEHOLDER :: json where
  "PLACEHOLDER = JString (lit ''Continue the immersive narrative of the journey.'')"

text \<open>The \<open>while\<close> loop that pushes the continuation string until the outline is long enough.\<close>

function pad_outline :: "json list \<Rightarrow> nat \<Rightarrow> json list" where
  "pad_outline outline totalSegments =
     (if length outline < totalSegments
      then pad_outline (outline @ [CONTINUATION]) totalSegments
      else outline)"
  by pat_completeness auto
termination
  by (relation "measure (\<lambda>(outline, totalSegments). totalSegments - length outline)") auto

declare pad_outline.simps [simp del]

text \<open>The text handed to \<open>JSON.parse\<close>: the match of the regular expression, or the whole text.\<close>

definition jsonString :: "jsstring \<Rightarrow> jsstring" where
  "jsonString text' =
     (let jsonMatch = match_array text'
      in case jsonMatch of Some m \<Rightarrow> m | None \<Rightarrow> text')"

text \<open>The check of the parsed value, the padding and the final \<open>slice\<close>.\<close>

definition finish_outline :: "json \<Rightarrow> nat \<Rightarrow> error + json list" where
  "finish_outline outline totalSegments =
     (case outline of
        JArray elements \<Rightarrow>
          if length elements = 0 then Inl (Error (lit ''Invalid outline format received.''))
          else Inr (slice 0 (int totalSegments) (pad_outline elements totalSegments))
      | _ \<Rightarrow> Inl (Error (lit ''Invalid outline format received.'')))"

text \<open>The body of the \<open>try\<close> block: \<open>Inl\<close> is what it throws.\<close>

definition outline_attempt ::
  "parser \<Rightarrow> completion \<Rightarrow> RouteDetails \<Rightarrow> nat \<Rightarrow> error + json list" where
  "outline_attempt JSON_parse makeHackClubRequest route totalSegments =
     (case makeHackClubRequest [\<lparr>role = lit ''user'', content = outlinePrompt route totalSegments\<rparr>] of
        Inl e \<Rightarrow> Inl e
      | Inr response \<Rightarrow>
          (case optional_trim response of
             Inl e \<Rightarrow> Inl e
           | Inr None \<Rightarrow> Inl (Error (lit ''No outline generated.''))
           | Inr (Some text') \<Rightarrow>
               if text' = [] then Inl (Error (lit ''No outline generated.''))
               else
                 (case JSON_parse (jsonString text') of
                    None \<Rightarrow> Inl SyntaxError
                  | Some outline \<Rightarrow> finish_outline outline totalSegments)))"

text \<open>
  The whole function: the \<open>catch\<close> block turns whatever the \<open>try\<close> block throws into the
  fallback outline. The result is a sum so that a throw out of the function would show.
\<close>

definition generateStoryOutline ::
  "parser \<Rightarrow> completion \<Rightarrow> RouteDetails \<Rightarrow> nat \<Rightarrow> error + json list" where
  "generateStoryOutline JSON_parse makeHackClubRequest route totalSegments =
     (case outline_attempt JSON_parse makeHackClubRequest route totalSegments of
        Inr finalOutline \<Rightarrow> Inr finalOutline
      | Inl e \<Rightarrow> Inr (replicate totalSegments PLACEHOLDER))"

section \<open>Segment Generator\<close>

definition CONTEXT_HEADER :: jsstring where
  "CONTEXT_HEADER =
     lit ''\<newline>      PREVIOUS NARRATIVE CONTEXT (The story so far):\<newline>      ...''"

definition CONTEXT_FOOTER :: jsstring where
  \<open>CONTEXT_FOOTER =
     lit '' \<newline>      (CONTINUE SEAMLESSLY from the above. Do not repeat it. Do not start with "And so..." or similar connectors every time.)\<newline>      ''\<close>

definition contextPrompt :: "int \<Rightarrow> jsstring \<Rightarrow> jsstring" where
  "contextPrompt segmentIndex previousContext =
     (let isFirst = (segmentIndex = 1)
      in if \<not> isFirst
         then CONTEXT_HEADER @ slice_from (- 1500) previousContext @ CONTEXT_FOOTER
         else [])"

definition segmentPrompt :: "RouteDetails \<Rightarrow> int \<Rightarrow> int \<Rightarrow> jsstring \<Rightarrow> jsstring \<Rightarrow> jsstring" where
  \<open>segmentPrompt route segmentIndex totalSegmentsEstimate segmentOutline previousContext =
     (let styleInstruction = getStyleInstruction (storyStyle route)
      in lit ''\<newline>    You are an AI storytelling engine generating a continuous, immersive audio stream for a traveler.\<newline>    Journey: ''
       @ startAddress route
       @ lit '' to ''
       @ endAddress route
       @ lit '' by ''
       @ toLowerCase (travelMode route)
       @ lit ''.\<newline>    Current Status: Segment ''
       @ numberToString segmentIndex
       @ lit '' of approx ''
       @ numberToString totalSegmentsEstimate
       @ lit ''.\<newline>    \<newline>    ''
       @ styleInstruction
       @ lit ''\<newline>\<newline>    CURRENT CHAPTER GOAL: ''
       @ segmentOutline
       @ lit ''\<newline>\<newline>    ''
       @ contextPrompt segmentIndex previousContext
       @ lit ''\<newline>\<newline>    Task: Write the next ~''
       @ numberToString (floor_d TARGET_SEGMENT_DURATION_SEC)
       @ lit '' seconds of narration (approx ''
       @ numberToString WORDS_PER_SEGMENT
       @ lit '' words) based on the Current Chapter Goal.\<newline>    Keep the narrative moving forward. This is a transient segment of a longer journey.\<newline>\<newline>    IMPORTANT: Output ONLY the raw narration text for this segment. Do not include titles, chapter headings, or JSON. Just the text to be spoken.\<newline>  '')\<close>

text \<open>
  \<open>generateSegment\<close>: the \<open>catch\<close> block logs and throws the error again, so what the \<open>try\<close>
  block throws is what the caller gets.
\<close>

definition generateSegment ::
  "completion \<Rightarrow> RouteDetails \<Rightarrow> int \<Rightarrow> int \<Rightarrow> jsstring \<Rightarrow> jsstring \<Rightarrow> error + StorySegment" where
  "generateSegment makeHackClubRequest route segmentIndex totalSegmentsEstimate segmentOutline
       previousContext =
     (case makeHackClubRequest
             [\<lparr>role = lit ''user'',
               content = segmentPrompt route segmentIndex totalSegmentsEstimate segmentOutline
                           previousContext\<rparr>] of
        Inl e \<Rightarrow> Inl e
      | Inr response \<Rightarrow>
          (case optional_trim response of
             Inl e \<Rightarrow> Inl e
           | Inr None \<Rightarrow> Inl (Error (lit ''No text generated for segment.''))
           | Inr (Some text') \<Rightarrow>
               if text' = [] then Inl (Error (lit ''No text generated for segment.''))
               else Inr \<lparr>index = segmentIndex, text = text', audioBuffer = None\<rparr>))"

section \<open>Audio Synthesis Adapter\<close>

text \<open>
  \<open>createBuffer\<close> of the Web Audio interface. Its length is an \<open>unsigned long\<close>, so the
  number passed is reduced modulo \<open>2\<^sup>3\<^sup>2\<close>; it throws \<open>NotSupportedError\<close> when an argument
  is zero or outside its nominal range (1 to 32 channels, at least one frame, and a rate in
  the range from 8000 to 96000 that every implementation supports). The samples of a new
  buffer are zero.
\<close>

definition createBuffer :: "nat \<Rightarrow> nat \<Rightarrow> nat \<Rightarrow> error + AudioBuffer" where
  "createBuffer channels len rate =
     (let n = len mod 2 ^ 32
      in if channels = 0 \<or> 32 < channels \<or> n = 0 \<or> rate < 8000 \<or> 96000 < rate
         then Inl NotSupportedError
         else Inr \<lparr>numberOfChannels = channels, frames = n, sampleRate = rate,
                    channelData = replicate channels (replicate n 0)\<rparr>)"

text \<open>
  The loop \<open>for (let i = 0; i < length; i++) channelData[i] = 0\<close>; a write beyond the end
  of a typed array is ignored, as a list update beyond the end is.
\<close>

function fill_silence :: "nat \<Rightarrow> nat \<Rightarrow> rat list \<Rightarrow> rat list" where
  "fill_silence i len channel =
     (if i < len then fill_silence (i + 1) len (channel[i := 0]) else channel)"
  by pat_completeness auto
termination
  by (relation "measure (\<lambda>(i, len, channel). len - i)") auto

declare fill_silence.simps [simp del]

text \<open>
  \<open>generateSegmentAudio\<close>: the audio context is given by its \<open>createBuffer\<close> method;
  \<open>getChannelData(0)\<close> throws \<open>IndexSizeError\<close> when the buffer has no channel, and the
  \<open>catch\<close> block throws the error again. The voice name is not used.
\<close>

type_synonym AudioContext = "nat \<Rightarrow> nat \<Rightarrow> nat \<Rightarrow> error + AudioBuffer"

definition generateSegmentAudio ::
  "jsstring \<Rightarrow> AudioContext \<Rightarrow> jsstring \<Rightarrow> error + AudioBuffer" where
  "generateSegmentAudio text' audioContext voiceName' =
     (let sampleRate' = 24000;
          duration' = fmul (of_length (length text')) d_0_08;
          len = nat (floor_d (fmul (Double sampleRate' 0) duration'))
      in case audioContext 1 len sampleRate' of
           Inl e \<Rightarrow> Inl e
         | Inr audioBuffer' \<Rightarrow>
             (case channelData audioBuffer' of
                [] \<Rightarrow> Inl IndexSizeError
              | channel # others \<Rightarrow>
                  Inr (audioBuffer'\<lparr>channelData := fill_silence 0 len channel # others\<rparr>)))"

section \<open>Properties of strings\<close>

lemma of_char_lt: "(of_char c :: nat) < 256"
proof -
  have "(of_char c :: nat) mod 256 = of_char c" by simp
  moreover have "(of_char c :: nat) mod 256 < 256" by (rule mod_less_divisor) simp
  ultimately show ?thesis by simp
qed

lemma unat_code_unit: "unat (code_unit c) = of_char c"
proof -
  have "(of_char c :: nat) < 65536"
    by (rule less_trans [OF of_char_lt]) simp
  then show ?thesis
    by (simp add: code_unit_def unat_of_nat)
qed

lemma code_unit_eq_iff: "code_unit a = code_unit b \<longleftrightarrow> a = b"
  by (metis unat_code_unit of_char_eq_iff)

lemma lit_eq_iff: "lit a = lit b \<longleftrightarrow> a = b"
proof
  assume "lit a = lit b"
  then show "a = b"
    unfolding lit_def
    by (induction a arbitrary: b) (auto simp: code_unit_eq_iff)
qed simp

lemmas style_names = NOIR_def CHILDREN_def HISTORICAL_def FANTASY_def DEFAULT_def

lemma style_names_distinct:
  "NOIR \<noteq> CHILDREN" "NOIR \<noteq> HISTORICAL" "NOIR \<noteq> FANTASY" "NOIR \<noteq> DEFAULT"
  "CHILDREN \<noteq> HISTORICAL" "CHILDREN \<noteq> FANTASY" "CHILDREN \<noteq> DEFAULT"
  "HISTORICAL \<noteq> FANTASY" "HISTORICAL \<noteq> DEFAULT" "FANTASY \<noteq> DEFAULT"
  by (simp_all add: style_names lit_eq_iff)

section \<open>Properties of the Style Instruction Resolver\<close>

text \<open>The eighth code unit of an instruction is the initial of its style's name.\<close>

lemma instruction_initial:
  "NOIR_INSTRUCTION ! 7 = code_unit CHR ''N''"
  "CHILDREN_INSTRUCTION ! 7 = code_unit CHR ''C''"
  "HISTORICAL_INSTRUCTION ! 7 = code_unit CHR ''H''"
  "FANTASY_INSTRUCTION ! 7 = code_unit CHR ''F''"
  "DEFAULT_INSTRUCTION ! 7 = code_unit CHR ''I''"
  by (simp_all add: NOIR_INSTRUCTION_def CHILDREN_INSTRUCTION_def HISTORICAL_INSTRUCTION_def
      FANTASY_INSTRUCTION_def DEFAULT_INSTRUCTION_def lit_def)

lemma instructions_distinct:
  "NOIR_INSTRUCTION \<noteq> CHILDREN_INSTRUCTION"
  "NOIR_INSTRUCTION \<noteq> HISTORICAL_INSTRUCTION"
  "NOIR_INSTRUCTION \<noteq> FANTASY_INSTRUCTION"
  "CHILDREN_INSTRUCTION \<noteq> HISTORICAL_INSTRUCTION"
  "CHILDREN_INSTRUCTION \<noteq> FANTASY_INSTRUCTION"
  "HISTORICAL_INSTRUCTION \<noteq> FANTASY_INSTRUCTION"
  using instruction_initial by (auto simp: code_unit_eq_iff)

text \<open>
  C9. The resolver is a function of the style alone: it reads no state, and whatever the
  style it returns one of five fixed instruction strings. NOIR, CHILDREN, HISTORICAL and
  FANTASY are each bound to their own instruction, and these four are pairwise distinct.
\<close>

theorem getStyleInstruction_fixed:
  "getStyleInstruction NOIR = NOIR_INSTRUCTION
   \<and> getStyleInstruction CHILDREN = CHILDREN_INSTRUCTION
   \<and> getStyleInstruction HISTORICAL = HISTORICAL_INSTRUCTION
   \<and> getStyleInstruction FANTASY = FANTASY_INSTRUCTION
   \<and> getStyleInstruction NOIR \<noteq> getStyleInstruction CHILDREN
   \<and> getStyleInstruction NOIR \<noteq> getStyleInstruction HISTORICAL
   \<and> getStyleInstruction NOIR \<noteq> getStyleInstruction FANTASY
   \<and> getStyleInstruction CHILDREN \<noteq> getStyleInstruction HISTORICAL
   \<and> getStyleInstruction CHILDREN \<noteq> getStyleInstruction FANTASY
   \<and> getStyleInstruction HISTORICAL \<noteq> getStyleInstruction FANTASY
   \<and> getStyleInstruction s \<in> {NOIR_INSTRUCTION, CHILDREN_INSTRUCTION, HISTORICAL_INSTRUCTION,
         FANTASY_INSTRUCTION, DEFAULT_INSTRUCTION}"
  by (simp add: getStyleInstruction_def style_names_distinct style_names_distinct [symmetric]
      instructions_distinct)

text \<open>
  C10. The resolver is total with a catch-all: every style other than NOIR, CHILDREN,
  HISTORICAL and FANTASY, the DEFAULT variant among them, gets the default instruction.
\<close>

theorem getStyleInstruction_default:
  "s \<noteq> NOIR \<Longrightarrow> s \<noteq> CHILDREN \<Longrightarrow> s \<noteq> HISTORICAL \<Longrightarrow> s \<noteq> FANTASY
   \<Longrightarrow> getStyleInstruction s = DEFAULT_INSTRUCTION"
  by (simp add: getStyleInstruction_def)

theorem getStyleInstruction_default_witness:
  "DEFAULT \<noteq> NOIR \<and> DEFAULT \<noteq> CHILDREN \<and> DEFAULT \<noteq> HISTORICAL \<and> DEFAULT \<noteq> FANTASY
   \<and> getStyleInstruction DEFAULT = DEFAULT_INSTRUCTION"
  using getStyleInstruction_default [of DEFAULT] style_names_distinct
  by simp

section \<open>Properties of the library functions\<close>

lemma slice_prefix: "slice 0 (int n) xs = take n xs"
  by (simp add: slice_def relative_index_def min_def)

lemma slice_from_suffix:
  assumes "0 < k"
  shows "slice_from (- int k) xs = drop (length xs - k) xs"
proof (cases "k \<le> length xs")
  case True
  then have "nat (int (length xs) - int k) = length xs - k"
    by simp
  with True assms show ?thesis
    by (simp add: slice_from_def slice_def relative_index_def max_def)
next
  case False
  with assms show ?thesis
    by (simp add: slice_from_def slice_def relative_index_def max_def)
qed

lemma greedy_to_rbracket_none:
  "RBRACKET \<notin> set cs \<Longrightarrow> greedy_to_rbracket cs = None"
  by (induction cs) auto

lemma greedy_to_rbracket_last:
  "RBRACKET \<notin> set post \<Longrightarrow> greedy_to_rbracket (mid @ RBRACKET # post) = Some (mid @ [RBRACKET])"
  by (induction mid) (auto simp: greedy_to_rbracket_none)

lemma match_array_skip:
  "LBRACKET \<notin> set pre \<Longrightarrow> match_array (pre @ s) = match_array s"
  by (induction pre) (auto simp: match_here_def)

lemma match_array_none: "LBRACKET \<notin> set s \<Longrightarrow> match_array s = None"
  using match_array_skip [of s "[]"] by simp

lemma match_array_first_to_last:
  assumes "LBRACKET \<notin> set pre" and "RBRACKET \<notin> set post"
  shows "match_array (pre @ LBRACKET # mid @ RBRACKET # post) = Some (LBRACKET # mid @ [RBRACKET])"
proof -
  have "match_here (LBRACKET # mid @ RBRACKET # post) = Some (LBRACKET # mid @ [RBRACKET])"
    using assms(2) by (simp add: match_here_def greedy_to_rbracket_last)
  then have "match_array (LBRACKET # mid @ RBRACKET # post) = Some (LBRACKET # mid @ [RBRACKET])"
    by simp
  with assms(1) show ?thesis
    by (simp add: match_array_skip)
qed

lemma match_array_unclosed:
  assumes "LBRACKET \<notin> set pre" and "RBRACKET \<notin> set rest"
  shows "match_array (pre @ LBRACKET # rest) = None"
proof -
  have "match_array rest = None"
    using assms(2)
  proof (induction rest)
    case Nil
    then show ?case by simp
  next
    case (Cons c cs)
    then show ?case
      by (simp add: match_here_def greedy_to_rbracket_none)
  qed
  moreover have "match_here (LBRACKET # rest) = None"
    using assms(2) by (simp add: match_here_def greedy_to_rbracket_none)
  ultimately have "match_array (LBRACKET # rest) = None"
    by simp
  with assms(1) show ?thesis
    by (simp add: match_array_skip)
qed

section \<open>Properties of the Outline Generator\<close>

lemma pad_outline_eq:
  "pad_outline outline n = outline @ replicate (n - length outline) CONTINUATION"
proof (induction outline n rule: pad_outline.induct)
  case (1 outline n)
  show ?case
  proof (cases "length outline < n")
    case True
    then have "n - length outline = Suc (n - Suc (length outline))"
      by simp
    with True "1" show ?thesis
      by (simp add: pad_outline.simps [of outline n] replicate_app_Cons_same)
  next
    case False
    then show ?thesis by (simp add: pad_outline.simps [of outline n])
  qed
qed

lemma finish_outline_array:
  "elements \<noteq> [] \<Longrightarrow>
   finish_outline (JArray elements) n
     = Inr (take n (elements @ replicate (n - length elements) CONTINUATION))"
  by (simp add: finish_outline_def slice_prefix pad_outline_eq)

lemma finish_outline_empty:
  "finish_outline (JArray []) n = Inl (Error (lit ''Invalid outline format received.''))"
  by (simp add: finish_outline_def)

lemma finish_outline_not_array:
  assumes "\<And>elements. v \<noteq> JArray elements"
  shows "finish_outline v n = Inl (Error (lit ''Invalid outline format received.''))"
  using assms by (cases v) (auto simp: finish_outline_def)

lemma finish_outline_length:
  "finish_outline v n = Inr outline \<Longrightarrow> length outline = n"
proof (cases v)
  case (JArray elements)
  assume "finish_outline v n = Inr outline"
  with JArray show ?thesis
    by (cases "elements = []") (auto simp: finish_outline_empty finish_outline_array)
qed (auto simp: finish_outline_def)

lemma outline_attempt_length:
  "outline_attempt JSON_parse makeHackClubRequest route n = Inr outline \<Longrightarrow> length outline = n"
  by (auto simp: outline_attempt_def finish_outline_length
      split: sum.splits option.splits if_splits)

lemma outline_attempt_parsed:
  assumes "makeHackClubRequest [\<lparr>role = lit ''user'', content = outlinePrompt route n\<rparr>]
            = Inr (Some (JString s))"
    and "trim s \<noteq> []"
    and "JSON_parse (jsonString (trim s)) = Some v"
  shows "outline_attempt JSON_parse makeHackClubRequest route n = finish_outline v n"
  using assms by (simp add: outline_attempt_def)

lemma generateStoryOutline_cases:
  "generateStoryOutline JSON_parse makeHackClubRequest route n
     = (case outline_attempt JSON_parse makeHackClubRequest route n of
          Inr outline \<Rightarrow> Inr outline
        | Inl e \<Rightarrow> Inr (replicate n PLACEHOLDER))"
  by (simp add: generateStoryOutline_def)

lemma generateStoryOutline_total:
  "\<exists>outline. generateStoryOutline JSON_parse makeHackClubRequest route n = Inr outline
             \<and> length outline = n"
  by (cases "outline_attempt JSON_parse makeHackClubRequest route n")
    (simp_all add: generateStoryOutline_cases outline_attempt_length)

lemma generateStoryOutline_parsed:
  assumes "makeHackClubRequest [\<lparr>role = lit ''user'', content = outlinePrompt route n\<rparr>]
            = Inr (Some (JString s))"
    and "trim s \<noteq> []"
    and "JSON_parse (jsonString (trim s)) = Some v"
  shows "generateStoryOutline JSON_parse makeHackClubRequest route n
           = (case finish_outline v n of
                Inr outline \<Rightarrow> Inr outline
              | Inl e \<Rightarrow> Inr (replicate n PLACEHOLDER))"
  using assms by (simp add: generateStoryOutline_cases outline_attempt_parsed)

lemma trim_example: "trim (lit ''[]'') = lit ''[]''"
  by (simp add: trim_def lit_def code_unit_def isWhiteSpace_def)

text \<open>
  C1, as the claim states it, fails: the elements of the parsed array are returned as they
  are. For the response \<open>[1]\<close> and a segment count of 3 the result is the number 1 followed
  by two copies of the continuation string, which is not an array of strings.
\<close>

theorem generateStoryOutline_not_strings:
  "generateStoryOutline [lit ''[1]'' \<mapsto> JArray [JNumber 1]]
     (\<lambda>m. Inr (Some (JString (lit ''[1]''))))
     \<lparr>startAddress = lit ''A'', endAddress = lit ''B'', distance = lit ''1.0 km'',
      duration = lit ''3min'', durationSeconds = Double 185 0, travelMode = WALKING,
      voiceName = lit ''Kore'', storyStyle = FANTASY\<rparr>
     3
   = Inr [JNumber 1, CONTINUATION, CONTINUATION]"
proof -
  have trimmed: "trim (lit ''[1]'') = lit ''[1]''"
    by (simp add: trim_def lit_def code_unit_def isWhiteSpace_def)
  have matched: "jsonString (lit ''[1]'') = lit ''[1]''"
    by (simp add: jsonString_def match_here_def lit_def code_unit_def LBRACKET_def RBRACKET_def)
  have nonempty: "lit ''[1]'' \<noteq> []"
    by (simp add: lit_def)
  have padded: "take 3 ([JNumber 1] @ replicate (3 - length [JNumber 1]) CONTINUATION)
                  = [JNumber 1, CONTINUATION, CONTINUATION]"
    by (simp add: eval_nat_numeral)
  have "generateStoryOutline [lit ''[1]'' \<mapsto> JArray [JNumber 1]]
     (\<lambda>m. Inr (Some (JString (lit ''[1]''))))
     \<lparr>startAddress = lit ''A'', endAddress = lit ''B'', distance = lit ''1.0 km'',
      duration = lit ''3min'', durationSeconds = Double 185 0, travelMode = WALKING,
      voiceName = lit ''Kore'', storyStyle = FANTASY\<rparr>
     3
   = (case finish_outline (JArray [JNumber 1]) 3 of
        Inr outline \<Rightarrow> Inr outline
      | Inl e \<Rightarrow> Inr (replicate 3 PLACEHOLDER))"
    by (rule generateStoryOutline_parsed [where s = "lit ''[1]''"])
      (simp_all only: trimmed matched nonempty fun_upd_same not_False_eq_True)
  moreover have "finish_outline (JArray [JNumber 1]) 3
                   = Inr [JNumber 1, CONTINUATION, CONTINUATION]"
  proof -
    have "[JNumber 1] \<noteq> []"
      by simp
    then have "finish_outline (JArray [JNumber 1]) 3
                 = Inr (take 3 ([JNumber 1] @ replicate (3 - length [JNumber 1]) CONTINUATION))"
      by (rule finish_outline_array)
    then show ?thesis
      by (simp only: padded)
  qed
  ultimately show ?thesis
    by (simp only: sum.case)
qed

text \<open>
  C1, amended. Whatever the journey, the segment count \<open>n\<close>, the completion service and the
  parser, \<open>generateStoryOutline\<close> returns an array of exactly \<open>n\<close> elements. When the parsed
  value is a non-empty array, the result is that array padded at the end with the
  continuation string and cut to its first \<open>n\<close> elements: a shorter array is padded up to
  \<open>n\<close>, a longer one is truncated. The elements are not checked: the \<open>n\<close> returned ones are
  strings when the parsed elements are strings.
\<close>

theorem generateStoryOutline_length:
  "\<exists>outline. generateStoryOutline JSON_parse makeHackClubRequest route n = Inr outline
     \<and> length outline = n
     \<and> (makeHackClubRequest [\<lparr>role = lit ''user'', content = outlinePrompt route n\<rparr>]
            = Inr (Some (JString s))
          \<longrightarrow> trim s \<noteq> []
          \<longrightarrow> JSON_parse (jsonString (trim s)) = Some (JArray elements)
          \<longrightarrow> elements \<noteq> []
          \<longrightarrow> outline = take n (elements @ replicate (n - length elements) CONTINUATION)
              \<and> (length elements < n
                   \<longrightarrow> outline = elements @ replicate (n - length elements) CONTINUATION)
              \<and> (n < length elements \<longrightarrow> outline = take n elements)
              \<and> ((\<forall>x \<in> set elements. \<exists>t. x = JString t)
                   \<longrightarrow> (\<forall>y \<in> set outline. \<exists>t. y = JString t)))"
proof -
  let ?padded = "take n (elements @ replicate (n - length elements) CONTINUATION)"
  have strings: "\<forall>y \<in> set ?padded. \<exists>t. y = JString t"
    if "\<forall>x \<in> set elements. \<exists>t. x = JString t"
  proof
    fix y
    assume "y \<in> set ?padded"
    then have "y \<in> set elements \<or> y = CONTINUATION"
      by (auto dest!: in_set_takeD)
    with that show "\<exists>t. y = JString t"
      by (auto simp: CONTINUATION_def)
  qed
  show ?thesis
  proof (cases "makeHackClubRequest [\<lparr>role = lit ''user'', content = outlinePrompt route n\<rparr>]
                  = Inr (Some (JString s))
                \<and> trim s \<noteq> []
                \<and> JSON_parse (jsonString (trim s)) = Some (JArray elements)
                \<and> elements \<noteq> []")
    case True
    then have "generateStoryOutline JSON_parse makeHackClubRequest route n = Inr ?padded"
      by (simp add: generateStoryOutline_parsed finish_outline_array)
    then show ?thesis
      using strings by (intro exI [of _ ?padded]) auto
  next
    case False
    with generateStoryOutline_total [of JSON_parse makeHackClubRequest route n]
    show ?thesis
      by blast
  qed
qed

theorem generateStoryOutline_length_witness:
  "generateStoryOutline (\<lambda>t. Some (JArray [JString (lit ''One''), JString (lit ''Two'')]))
     (\<lambda>m. Inr (Some (JString (lit ''[]''))))
     \<lparr>startAddress = lit ''A'', endAddress = lit ''B'', distance = lit ''1.0 km'',
      duration = lit ''3min'', durationSeconds = Double 185 0, travelMode = WALKING,
      voiceName = lit ''Kore'', storyStyle = FANTASY\<rparr>
     5
   = Inr [JString (lit ''One''), JString (lit ''Two''), CONTINUATION, CONTINUATION, CONTINUATION]"
proof -
  have nonempty: "trim (lit ''[]'') \<noteq> []"
    unfolding trim_example by (simp add: lit_def)
  have padded: "take 5 ([JString (lit ''One''), JString (lit ''Two'')]
                  @ replicate (5 - length [JString (lit ''One''), JString (lit ''Two'')])
                      CONTINUATION)
                = [JString (lit ''One''), JString (lit ''Two''),
                   CONTINUATION, CONTINUATION, CONTINUATION]"
    by (simp add: eval_nat_numeral)
  from generateStoryOutline_length
    [of "\<lambda>t. Some (JArray [JString (lit ''One''), JString (lit ''Two'')])"
        "\<lambda>m. Inr (Some (JString (lit ''[]'')))"
        "\<lparr>startAddress = lit ''A'', endAddress = lit ''B'', distance = lit ''1.0 km'',
          duration = lit ''3min'', durationSeconds = Double 185 0, travelMode = WALKING,
          voiceName = lit ''Kore'', storyStyle = FANTASY\<rparr>"
        5 "lit ''[]''" "[JString (lit ''One''), JString (lit ''Two'')]"]
  show ?thesis
    using nonempty unfolding padded by auto
qed

text \<open>
  C3. \<open>generateStoryOutline\<close> never throws: it always returns. When the completion request
  throws, or its content is \<open>undefined\<close>, \<open>null\<close>, not a string, or empty once trimmed, or
  the text does not parse, or parses to something that is not an array, or to an empty
  array, the result is \<open>n\<close> copies of the one placeholder string.
\<close>

theorem generateStoryOutline_fallback:
  "(\<exists>outline. generateStoryOutline JSON_parse makeHackClubRequest route n = Inr outline)
   \<and> (makeHackClubRequest [\<lparr>role = lit ''user'', content = outlinePrompt route n\<rparr>] = Inl e
        \<longrightarrow> generateStoryOutline JSON_parse makeHackClubRequest route n
              = Inr (replicate n PLACEHOLDER))
   \<and> (makeHackClubRequest [\<lparr>role = lit ''user'', content = outlinePrompt route n\<rparr>] = Inr response
        \<longrightarrow> (\<forall>s. response \<noteq> Some (JString s))
        \<longrightarrow> generateStoryOutline JSON_parse makeHackClubRequest route n
              = Inr (replicate n PLACEHOLDER))
   \<and> (makeHackClubRequest [\<lparr>role = lit ''user'', content = outlinePrompt route n\<rparr>]
          = Inr (Some (JString s))
        \<longrightarrow> trim s = []
            \<or> JSON_parse (jsonString (trim s)) = None
            \<or> (\<exists>v. JSON_parse (jsonString (trim s)) = Some v \<and> (\<forall>elements. v \<noteq> JArray elements))
            \<or> JSON_parse (jsonString (trim s)) = Some (JArray [])
        \<longrightarrow> generateStoryOutline JSON_parse makeHackClubRequest route n
              = Inr (replicate n PLACEHOLDER))
   \<and> length (replicate n PLACEHOLDER) = n"
proof (intro conjI impI)
  show "\<exists>outline. generateStoryOutline JSON_parse makeHackClubRequest route n = Inr outline"
    using generateStoryOutline_total by blast
next
  assume "makeHackClubRequest [\<lparr>role = lit ''user'', content = outlinePrompt route n\<rparr>] = Inl e"
  then show "generateStoryOutline JSON_parse makeHackClubRequest route n
               = Inr (replicate n PLACEHOLDER)"
    by (simp add: generateStoryOutline_cases outline_attempt_def)
next
  assume r: "makeHackClubRequest [\<lparr>role = lit ''user'', content = outlinePrompt route n\<rparr>]
               = Inr response"
    and "\<forall>s. response \<noteq> Some (JString s)"
  then have "optional_trim response = Inr None \<or> optional_trim response = Inl TypeError"
    by (cases response rule: optional_trim.cases) simp_all
  with r show "generateStoryOutline JSON_parse makeHackClubRequest route n
                 = Inr (replicate n PLACEHOLDER)"
    by (auto simp: generateStoryOutline_cases outline_attempt_def)
next
  assume r: "makeHackClubRequest [\<lparr>role = lit ''user'', content = outlinePrompt route n\<rparr>]
               = Inr (Some (JString s))"
    and "trim s = []
          \<or> JSON_parse (jsonString (trim s)) = None
          \<or> (\<exists>v. JSON_parse (jsonString (trim s)) = Some v \<and> (\<forall>elements. v \<noteq> JArray elements))
          \<or> JSON_parse (jsonString (trim s)) = Some (JArray [])"
  then consider "trim s = []"
    | "trim s \<noteq> []" "JSON_parse (jsonString (trim s)) = None"
    | v where "trim s \<noteq> []" "JSON_parse (jsonString (trim s)) = Some v"
        "finish_outline v n = Inl (Error (lit ''Invalid outline format received.''))"
    using finish_outline_not_array finish_outline_empty by metis
  then show "generateStoryOutline JSON_parse makeHackClubRequest route n
               = Inr (replicate n PLACEHOLDER)"
  proof cases
    case 1
    with r show ?thesis
      by (simp add: generateStoryOutline_cases outline_attempt_def)
  next
    case 2
    with r show ?thesis
      by (simp add: generateStoryOutline_cases outline_attempt_def)
  next
    case 3
    with r show ?thesis
      by (simp add: generateStoryOutline_parsed)
  qed
qed simp

theorem generateStoryOutline_fallback_witness:
  "generateStoryOutline (\<lambda>t. None) (\<lambda>m. Inl TypeError)
     \<lparr>startAddress = lit ''A'', endAddress = lit ''B'', distance = lit ''1.0 km'',
      duration = lit ''3min'', durationSeconds = Double 185 0, travelMode = WALKING,
      voiceName = lit ''Kore'', storyStyle = FANTASY\<rparr>
     2
   = Inr [PLACEHOLDER, PLACEHOLDER]
   \<and> generateStoryOutline (\<lambda>t. None) (\<lambda>m. Inr (Some JNull))
     \<lparr>startAddress = lit ''A'', endAddress = lit ''B'', distance = lit ''1.0 km'',
      duration = lit ''3min'', durationSeconds = Double 185 0, travelMode = WALKING,
      voiceName = lit ''Kore'', storyStyle = FANTASY\<rparr>
     2
   = Inr [PLACEHOLDER, PLACEHOLDER]
   \<and> generateStoryOutline (\<lambda>t. Some (JArray [])) (\<lambda>m. Inr (Some (JString (lit ''[]''))))
     \<lparr>startAddress = lit ''A'', endAddress = lit ''B'', distance = lit ''1.0 km'',
      duration = lit ''3min'', durationSeconds = Double 185 0, travelMode = WALKING,
      voiceName = lit ''Kore'', storyStyle = FANTASY\<rparr>
     2
   = Inr [PLACEHOLDER, PLACEHOLDER]"
proof -
  have two: "replicate 2 PLACEHOLDER = [PLACEHOLDER, PLACEHOLDER]"
    by (simp add: eval_nat_numeral)
  show ?thesis
    using
      generateStoryOutline_fallback
        [of "\<lambda>t. None" "\<lambda>m. Inl TypeError"
            "\<lparr>startAddress = lit ''A'', endAddress = lit ''B'', distance = lit ''1.0 km'',
              duration = lit ''3min'', durationSeconds = Double 185 0, travelMode = WALKING,
              voiceName = lit ''Kore'', storyStyle = FANTASY\<rparr>"
            2 TypeError]
      generateStoryOutline_fallback
        [of "\<lambda>t. None" "\<lambda>m. Inr (Some JNull)"
            "\<lparr>startAddress = lit ''A'', endAddress = lit ''B'', distance = lit ''1.0 km'',
              duration = lit ''3min'', durationSeconds = Double 185 0, travelMode = WALKING,
              voiceName = lit ''Kore'', storyStyle = FANTASY\<rparr>"
            2 _ "Some JNull"]
      generateStoryOutline_fallback
        [of "\<lambda>t. Some (JArray [])" "\<lambda>m. Inr (Some (JString (lit ''[]'')))"
            "\<lparr>startAddress = lit ''A'', endAddress = lit ''B'', distance = lit ''1.0 km'',
              duration = lit ''3min'', durationSeconds = Double 185 0, travelMode = WALKING,
              voiceName = lit ''Kore'', storyStyle = FANTASY\<rparr>"
            2 _ _ "lit ''[]''"]
    unfolding two by auto
qed

text \<open>
  C6, as the claim states it, fails: the match does not stop at the \<open>]\<close> that closes the
  first \<open>[\<close>. In the response \<open>["a"] and ]\<close> the text handed to the parser is the whole
  response, not the array \<open>["a"]\<close>.
\<close>

theorem jsonString_not_first_array:
  \<open>jsonString (lit ''["a"] and ]'') = lit ''["a"] and ]''
   \<and> jsonString (lit ''["a"] and ]'') \<noteq> lit ''["a"]''\<close>
  by (simp add: jsonString_def match_here_def lit_def code_unit_def LBRACKET_def RBRACKET_def)

text \<open>
  C6, amended. The text handed to the parser runs from the first \<open>[\<close> of the trimmed response
  to its last \<open>]\<close>; when there is no \<open>[\<close>, or no \<open>]\<close> after the first \<open>[\<close>, it is the whole
  trimmed response. So an array is extracted from the text around it when no \<open>[\<close> comes
  before it and no \<open>]\<close> after it. \<open>generateStoryOutline\<close> applies the parser to that text and
  to no other: its result is the fallback outline when the parser fails on that text, and
  otherwise what the check, the padding and the cut make of the parsed value.
\<close>

theorem jsonString_first_to_last:
  "(LBRACKET \<notin> set pre \<longrightarrow> RBRACKET \<notin> set post
      \<longrightarrow> jsonString (pre @ LBRACKET # mid @ RBRACKET # post) = LBRACKET # mid @ [RBRACKET])
   \<and> (LBRACKET \<notin> set pre \<longrightarrow> RBRACKET \<notin> set rest
      \<longrightarrow> jsonString (pre @ LBRACKET # rest) = pre @ LBRACKET # rest)
   \<and> (LBRACKET \<notin> set whole \<longrightarrow> jsonString whole = whole)
   \<and> (makeHackClubRequest [\<lparr>role = lit ''user'', content = outlinePrompt route n\<rparr>]
          = Inr (Some (JString s))
      \<longrightarrow> JSON_parse (jsonString (trim s)) = JSON_parse' (jsonString (trim s))
      \<longrightarrow> generateStoryOutline JSON_parse makeHackClubRequest route n
            = generateStoryOutline JSON_parse' makeHackClubRequest route n)
   \<and> (makeHackClubRequest [\<lparr>role = lit ''user'', content = outlinePrompt route n\<rparr>]
          = Inr (Some (JString s))
      \<longrightarrow> trim s \<noteq> []
      \<longrightarrow> generateStoryOutline JSON_parse makeHackClubRequest route n
            = (case JSON_parse (jsonString (trim s)) of
                 None \<Rightarrow> Inr (replicate n PLACEHOLDER)
               | Some v \<Rightarrow>
                   (case finish_outline v n of
                      Inr outline \<Rightarrow> Inr outline
                    | Inl e \<Rightarrow> Inr (replicate n PLACEHOLDER))))
   \<and> (makeHackClubRequest [\<lparr>role = lit ''user'', content = outlinePrompt route n\<rparr>]
          = Inr (Some (JString s))
      \<longrightarrow> trim s = pre @ LBRACKET # mid @ RBRACKET # post
      \<longrightarrow> LBRACKET \<notin> set pre \<longrightarrow> RBRACKET \<notin> set post
      \<longrightarrow> generateStoryOutline JSON_parse makeHackClubRequest route n
            = (case JSON_parse (LBRACKET # mid @ [RBRACKET]) of
                 None \<Rightarrow> Inr (replicate n PLACEHOLDER)
               | Some v \<Rightarrow>
                   (case finish_outline v n of
                      Inr outline \<Rightarrow> Inr outline
                    | Inl e \<Rightarrow> Inr (replicate n PLACEHOLDER))))"
  by (simp add: jsonString_def match_array_first_to_last match_array_unclosed match_array_none
      generateStoryOutline_cases outline_attempt_def split: option.splits)

theorem jsonString_first_to_last_witness:
  \<open>jsonString (lit ''Here: ["a"] ok'') = lit ''["a"]''
   \<and> jsonString (lit ''a [ b'') = lit ''a [ b''
   \<and> jsonString (lit ''a ] b'') = lit ''a ] b''
   \<and> generateStoryOutline [lit ''["a"]'' \<mapsto> JArray [JString (lit ''a'')]]
        (\<lambda>m. Inr (Some (JString (lit ''Here: ["a"] ok''))))
        \<lparr>startAddress = lit ''A'', endAddress = lit ''B'', distance = lit ''1.0 km'',
         duration = lit ''3min'', durationSeconds = Double 185 0, travelMode = WALKING,
         voiceName = lit ''Kore'', storyStyle = FANTASY\<rparr>
        1
      = Inr [JString (lit ''a'')]\<close>
proof -
  have brackets: "LBRACKET = code_unit CHR ''[''" "RBRACKET = code_unit CHR '']''"
    by (simp_all add: LBRACKET_def RBRACKET_def code_unit_def)
  have around: \<open>lit ''Here: ["a"] ok'' = lit ''Here: '' @ LBRACKET # lit ''"a"'' @ RBRACKET # lit '' ok''\<close>
    and array: \<open>lit ''["a"]'' = LBRACKET # lit ''"a"'' @ [RBRACKET]\<close>
    and unclosed: "lit ''a [ b'' = lit ''a '' @ LBRACKET # lit '' b''"
    by (simp_all add: lit_def brackets)
  have absent: "LBRACKET \<notin> set (lit ''Here: '')" "RBRACKET \<notin> set (lit '' ok'')"
    "LBRACKET \<notin> set (lit ''a '')" "RBRACKET \<notin> set (lit '' b'')"
    "LBRACKET \<notin> set (lit ''a ] b'')"
    by (simp_all add: lit_def brackets code_unit_eq_iff)
  have trimmed: \<open>trim (lit ''Here: ["a"] ok'')
                   = lit ''Here: '' @ LBRACKET # lit ''"a"'' @ RBRACKET # lit '' ok''\<close>
    by (simp add: trim_def lit_def code_unit_def isWhiteSpace_def brackets)
  have one: "take 1 ([JString (lit ''a'')] @ replicate (1 - length [JString (lit ''a'')]) CONTINUATION)
               = [JString (lit ''a'')]"
    by simp
  have "[JString (lit ''a'')] \<noteq> []"
    by simp
  then have "finish_outline (JArray [JString (lit ''a'')]) 1
               = Inr (take 1 ([JString (lit ''a'')]
                   @ replicate (1 - length [JString (lit ''a'')]) CONTINUATION))"
    by (rule finish_outline_array)
  then have checked: "finish_outline (JArray [JString (lit ''a'')]) 1 = Inr [JString (lit ''a'')]"
    by (simp only: one)
  have strings: \<open>jsonString (lit ''Here: ["a"] ok'') = lit ''["a"]''
     \<and> jsonString (lit ''a [ b'') = lit ''a [ b''
     \<and> jsonString (lit ''a ] b'') = lit ''a ] b''\<close>
    unfolding around array unclosed
    using absent
      jsonString_first_to_last
        [where pre = "lit ''Here: ''" and post = "lit '' ok''" and mid = \<open>lit ''"a"''\<close>
           and rest = "lit '' b''" and whole = "lit ''a ] b''"]
      jsonString_first_to_last
        [where pre = "lit ''a ''" and post = "lit '' ok''" and mid = \<open>lit ''"a"''\<close>
           and rest = "lit '' b''" and whole = "lit ''a ] b''"]
    by blast
  have \<open>generateStoryOutline [lit ''["a"]'' \<mapsto> JArray [JString (lit ''a'')]]
        (\<lambda>m. Inr (Some (JString (lit ''Here: ["a"] ok''))))
        \<lparr>startAddress = lit ''A'', endAddress = lit ''B'', distance = lit ''1.0 km'',
         duration = lit ''3min'', durationSeconds = Double 185 0, travelMode = WALKING,
         voiceName = lit ''Kore'', storyStyle = FANTASY\<rparr>
        1
      = (case [lit ''["a"]'' \<mapsto> JArray [JString (lit ''a'')]]
                (LBRACKET # lit ''"a"'' @ [RBRACKET]) of
           None \<Rightarrow> Inr (replicate 1 PLACEHOLDER)
         | Some v \<Rightarrow>
             (case finish_outline v 1 of
                Inr outline \<Rightarrow> Inr outline
              | Inl e \<Rightarrow> Inr (replicate 1 PLACEHOLDER)))\<close>
    using absent(1,2) trimmed
      jsonString_first_to_last
        [where pre = "lit ''Here: ''" and post = "lit '' ok''" and mid = \<open>lit ''"a"''\<close>
           and s = \<open>lit ''Here: ["a"] ok''\<close>
           and makeHackClubRequest = \<open>\<lambda>m. Inr (Some (JString (lit ''Here: ["a"] ok'')))\<close>
           and JSON_parse = \<open>[lit ''["a"]'' \<mapsto> JArray [JString (lit ''a'')]]\<close>
           and n = 1]
    by blast
  then have \<open>generateStoryOutline [lit ''["a"]'' \<mapsto> JArray [JString (lit ''a'')]]
        (\<lambda>m. Inr (Some (JString (lit ''Here: ["a"] ok''))))
        \<lparr>startAddress = lit ''A'', endAddress = lit ''B'', distance = lit ''1.0 km'',
         duration = lit ''3min'', durationSeconds = Double 185 0, travelMode = WALKING,
         voiceName = lit ''Kore'', storyStyle = FANTASY\<rparr>
        1
      = Inr [JString (lit ''a'')]\<close>
    by (simp only: array [symmetric] fun_upd_same option.case checked sum.case)
  with strings show ?thesis
    by blast
qed

text \<open>
  C7, as the claim states it, fails: the elements of the parsed array are not checked. The
  parsed value \<open>[1]\<close>, an array whose only element is a number, passes and is returned.
\<close>

theorem finish_outline_accepts_number:
  "finish_outline (JArray [JNumber 1]) 1 = Inr [JNumber 1]"
  by (simp add: finish_outline_array)

text \<open>
  C7, amended. After parsing, \<open>generateStoryOutline\<close> checks that the parsed value is an array
  and is not empty: a value that is no array and the empty array are rejected and the
  fallback outline is returned, while every non-empty array passes, whatever its elements,
  and is padded and cut to the segment count.
\<close>

theorem finish_outline_validation:
  "((\<forall>elements. v \<noteq> JArray elements) \<or> v = JArray []
      \<longrightarrow> finish_outline v n = Inl (Error (lit ''Invalid outline format received.'')))
   \<and> (elements \<noteq> []
      \<longrightarrow> finish_outline (JArray elements) n
            = Inr (take n (elements @ replicate (n - length elements) CONTINUATION)))
   \<and> (makeHackClubRequest [\<lparr>role = lit ''user'', content = outlinePrompt route n\<rparr>]
          = Inr (Some (JString s))
      \<longrightarrow> trim s \<noteq> []
      \<longrightarrow> JSON_parse (jsonString (trim s)) = Some v
      \<longrightarrow> generateStoryOutline JSON_parse makeHackClubRequest route n
            = (if (\<forall>elements. v \<noteq> JArray elements) \<or> v = JArray []
               then Inr (replicate n PLACEHOLDER)
               else finish_outline v n))"
proof (intro conjI impI)
  assume "(\<forall>elements. v \<noteq> JArray elements) \<or> v = JArray []"
  then show "finish_outline v n = Inl (Error (lit ''Invalid outline format received.''))"
    using finish_outline_not_array finish_outline_empty by metis
next
  assume "elements \<noteq> []"
  then show "finish_outline (JArray elements) n
               = Inr (take n (elements @ replicate (n - length elements) CONTINUATION))"
    by (rule finish_outline_array)
next
  assume r: "makeHackClubRequest [\<lparr>role = lit ''user'', content = outlinePrompt route n\<rparr>]
               = Inr (Some (JString s))"
    and t: "trim s \<noteq> []" and p: "JSON_parse (jsonString (trim s)) = Some v"
  show "generateStoryOutline JSON_parse makeHackClubRequest route n
          = (if (\<forall>elements. v \<noteq> JArray elements) \<or> v = JArray []
             then Inr (replicate n PLACEHOLDER)
             else finish_outline v n)"
  proof (cases "(\<forall>elements. v \<noteq> JArray elements) \<or> v = JArray []")
    case True
    then have "finish_outline v n = Inl (Error (lit ''Invalid outline format received.''))"
      using finish_outline_not_array finish_outline_empty by metis
    with True r t p show ?thesis
      by (simp add: generateStoryOutline_parsed)
  next
    case False
    then obtain elements where "v = JArray elements" "elements \<noteq> []"
      by blast
    with False r t p show ?thesis
      by (simp add: generateStoryOutline_parsed finish_outline_array)
  qed
qed

theorem finish_outline_validation_witness:
  "finish_outline (JString (lit ''One'')) 2 = Inl (Error (lit ''Invalid outline format received.''))
   \<and> finish_outline (JArray [JNumber 1, JNull, JBool True]) 2 = Inr [JNumber 1, JNull]
   \<and> generateStoryOutline (\<lambda>t. Some (JObject [])) (\<lambda>m. Inr (Some (JString (lit ''[]''))))
        \<lparr>startAddress = lit ''A'', endAddress = lit ''B'', distance = lit ''1.0 km'',
         duration = lit ''3min'', durationSeconds = Double 185 0, travelMode = WALKING,
         voiceName = lit ''Kore'', storyStyle = FANTASY\<rparr>
        2
      = Inr [PLACEHOLDER, PLACEHOLDER]"
proof -
  have two: "replicate 2 PLACEHOLDER = [PLACEHOLDER, PLACEHOLDER]"
    and cut: "take 2 ([JNumber 1, JNull, JBool True]
                @ replicate (2 - length [JNumber 1, JNull, JBool True]) CONTINUATION)
              = [JNumber 1, JNull]"
    by (simp_all add: eval_nat_numeral)
  have nonempty: "trim (lit ''[]'') \<noteq> []"
    unfolding trim_example by (simp add: lit_def)
  show ?thesis
    using
      finish_outline_validation
        [of "JString (lit ''One'')" 2 "[JNumber 1, JNull, JBool True]"
            "\<lambda>m. Inr (Some (JString (lit ''[]'')))"
            "\<lparr>startAddress = lit ''A'', endAddress = lit ''B'', distance = lit ''1.0 km'',
              duration = lit ''3min'', durationSeconds = Double 185 0, travelMode = WALKING,
              voiceName = lit ''Kore'', storyStyle = FANTASY\<rparr>"
            "lit ''[]''" "\<lambda>t. Some (JObject [])"]
      finish_outline_validation
        [of "JObject []" 2 "[JNumber 1, JNull, JBool True]"
            "\<lambda>m. Inr (Some (JString (lit ''[]'')))"
            "\<lparr>startAddress = lit ''A'', endAddress = lit ''B'', distance = lit ''1.0 km'',
              duration = lit ''3min'', durationSeconds = Double 185 0, travelMode = WALKING,
              voiceName = lit ''Kore'', storyStyle = FANTASY\<rparr>"
            "lit ''[]''" "\<lambda>t. Some (JObject [])"]
      nonempty
    unfolding two cut by auto
qed

section \<open>Properties of the Segment Generator\<close>

text \<open>
  C4. \<open>generateSegment\<close> does not mask a failure. When the completion request throws, the
  caller gets what it threw; when the content is \<open>undefined\<close>, \<open>null\<close> or empty once trimmed,
  the caller gets the error \<open>No text generated for segment.\<close>; when it is not a string, a
  \<open>TypeError\<close>. No segment is returned in these cases, a returned segment never has an empty
  text, and a failure is a different outcome from a returned segment, one with an empty text
  included.
\<close>

theorem generateSegment_surfaces_failure:
  "(makeHackClubRequest
        [\<lparr>role = lit ''user'',
          content = segmentPrompt route i estimate goal previousContext\<rparr>] = Inl e
      \<longrightarrow> generateSegment makeHackClubRequest route i estimate goal previousContext = Inl e)
   \<and> (makeHackClubRequest
        [\<lparr>role = lit ''user'',
          content = segmentPrompt route i estimate goal previousContext\<rparr>] = Inr response
      \<longrightarrow> response = None \<or> response = Some JNull
          \<or> (\<exists>s. response = Some (JString s) \<and> trim s = [])
      \<longrightarrow> generateSegment makeHackClubRequest route i estimate goal previousContext
            = Inl (Error (lit ''No text generated for segment.'')))
   \<and> (makeHackClubRequest
        [\<lparr>role = lit ''user'',
          content = segmentPrompt route i estimate goal previousContext\<rparr>] = Inr (Some v)
      \<longrightarrow> v \<noteq> JNull \<longrightarrow> (\<forall>s. v \<noteq> JString s)
      \<longrightarrow> generateSegment makeHackClubRequest route i estimate goal previousContext = Inl TypeError)
   \<and> (makeHackClubRequest
        [\<lparr>role = lit ''user'',
          content = segmentPrompt route i estimate goal previousContext\<rparr>] = Inr (Some (JString s))
      \<longrightarrow> trim s \<noteq> []
      \<longrightarrow> generateSegment makeHackClubRequest route i estimate goal previousContext
            = Inr \<lparr>index = i, text = trim s, audioBuffer = None\<rparr>)
   \<and> (generateSegment makeHackClubRequest route i estimate goal previousContext = Inr segment
      \<longrightarrow> text segment \<noteq> [] \<and> index segment = i)
   \<and> (Inl e' :: error + StorySegment) \<noteq> Inr \<lparr>index = i, text = [], audioBuffer = None\<rparr>"
proof (intro conjI impI)
  assume "makeHackClubRequest
            [\<lparr>role = lit ''user'',
              content = segmentPrompt route i estimate goal previousContext\<rparr>] = Inr (Some v)"
    and "v \<noteq> JNull" and "\<forall>s. v \<noteq> JString s"
  then show "generateSegment makeHackClubRequest route i estimate goal previousContext
               = Inl TypeError"
    by (cases v) (simp_all add: generateSegment_def)
next
  assume "generateSegment makeHackClubRequest route i estimate goal previousContext = Inr segment"
  then show "text segment \<noteq> []" and "index segment = i"
    by (auto simp: generateSegment_def split: sum.splits option.splits if_splits)
qed (auto simp: generateSegment_def)

theorem generateSegment_surfaces_failure_witness:
  "generateSegment (\<lambda>m. Inl (Error (lit ''Hack Club API error: 500 '')))
     \<lparr>startAddress = lit ''A'', endAddress = lit ''B'', distance = lit ''1.0 km'',
      duration = lit ''3min'', durationSeconds = Double 185 0, travelMode = WALKING,
      voiceName = lit ''Kore'', storyStyle = FANTASY\<rparr>
     2 4 (lit ''goal'') (lit ''before'')
   = Inl (Error (lit ''Hack Club API error: 500 ''))
   \<and> generateSegment (\<lambda>m. Inr (Some (JString (lit ''  ''))))
     \<lparr>startAddress = lit ''A'', endAddress = lit ''B'', distance = lit ''1.0 km'',
      duration = lit ''3min'', durationSeconds = Double 185 0, travelMode = WALKING,
      voiceName = lit ''Kore'', storyStyle = FANTASY\<rparr>
     2 4 (lit ''goal'') (lit ''before'')
   = Inl (Error (lit ''No text generated for segment.''))"
proof -
  have blank: "trim (lit ''  '') = []"
    by (simp add: trim_def lit_def code_unit_def isWhiteSpace_def)
  show ?thesis
    using
      generateSegment_surfaces_failure
        [where makeHackClubRequest = "\<lambda>m. Inl (Error (lit ''Hack Club API error: 500 ''))"
           and e = "Error (lit ''Hack Club API error: 500 '')"
           and route = "\<lparr>startAddress = lit ''A'', endAddress = lit ''B'',
              distance = lit ''1.0 km'', duration = lit ''3min'', durationSeconds = Double 185 0,
              travelMode = WALKING, voiceName = lit ''Kore'', storyStyle = FANTASY\<rparr>"
           and i = 2 and estimate = 4 and goal = "lit ''goal''"
           and previousContext = "lit ''before''"]
      generateSegment_surfaces_failure
        [where makeHackClubRequest = "\<lambda>m. Inr (Some (JString (lit ''  '')))"
           and response = "Some (JString (lit ''  ''))"
           and route = "\<lparr>startAddress = lit ''A'', endAddress = lit ''B'',
              distance = lit ''1.0 km'', duration = lit ''3min'', durationSeconds = Double 185 0,
              travelMode = WALKING, voiceName = lit ''Kore'', storyStyle = FANTASY\<rparr>"
           and i = 2 and estimate = 4 and goal = "lit ''goal''"
           and previousContext = "lit ''before''"]
      blank
    by blast
qed

lemma embedded_here: "\<exists>before after. \<forall>c. g c @ rest = before @ g c @ after"
  by (intro exI [of _ "[]"] exI [of _ rest]) simp

lemma embedded_later:
  assumes "\<exists>before after. \<forall>c. f c = before @ g c @ after"
  shows "\<exists>before after. \<forall>c. x @ f c = before @ g c @ after"
proof -
  from assms obtain before after where "\<forall>c. f c = before @ g c @ after"
    by blast
  then have "\<forall>c. x @ f c = (x @ before) @ g c @ after"
    by simp
  then show ?thesis
    by blast
qed

lemma segmentPrompt_embeds_context:
  "\<exists>before after. \<forall>previousContext.
     segmentPrompt route i estimate goal previousContext
       = before @ contextPrompt i previousContext @ after"
  unfolding segmentPrompt_def Let_def
  by (intro embedded_later embedded_here)

lemma contextPrompt_first: "contextPrompt 1 previousContext = []"
  by (simp add: contextPrompt_def)

lemma trailing_window:
  "slice_from (- 1500) previousContext = drop (length previousContext - 1500) previousContext"
  using slice_from_suffix [of 1500 previousContext] by simp

lemma generateSegment_request:
  "generateSegment makeHackClubRequest route i estimate goal previousContext
     = (case makeHackClubRequest
               [\<lparr>role = lit ''user'',
                 content = segmentPrompt route i estimate goal previousContext\<rparr>] of
          Inl e \<Rightarrow> Inl e
        | Inr response \<Rightarrow>
            (case optional_trim response of
               Inl e \<Rightarrow> Inl e
             | Inr None \<Rightarrow> Inl (Error (lit ''No text generated for segment.''))
             | Inr (Some t) \<Rightarrow>
                 if t = [] then Inl (Error (lit ''No text generated for segment.''))
                 else Inr \<lparr>index = i, text = t, audioBuffer = None\<rparr>))"
  by (simp add: generateSegment_def)

lemma segmentPrompt_window:
  assumes "1 < i"
  shows "\<exists>before after. \<forall>c.
           segmentPrompt route i estimate goal c
             = before @ CONTEXT_HEADER @ drop (length c - 1500) c @ CONTEXT_FOOTER @ after"
proof -
  obtain before after
    where "\<forall>c. segmentPrompt route i estimate goal c = before @ contextPrompt i c @ after"
    using segmentPrompt_embeds_context by blast
  moreover have "contextPrompt i c
                   = CONTEXT_HEADER @ drop (length c - 1500) c @ CONTEXT_FOOTER" for c
    using assms by (simp add: contextPrompt_def trailing_window)
  ultimately have "\<forall>c. segmentPrompt route i estimate goal c
                     = before @ CONTEXT_HEADER @ drop (length c - 1500) c @ CONTEXT_FOOTER @ after"
    by simp
  then show ?thesis
    by blast
qed

text \<open>
  C5. For a segment index above 1 the one message that \<open>generateSegment\<close> sends to the
  completion service has as its content a prompt made of a part that does not depend on
  \<open>previousContext\<close>, the fixed header, the trailing at most 1500 code units of
  \<open>previousContext\<close>, the fixed footer and another part that does not depend on it; what the
  service answers to that message decides the result. Of a text of length 2000 the last 1500
  code units are included, of a text of at most 1500 code units all of it. For index 1 the
  block is empty, and the message sent does not depend on \<open>previousContext\<close>.
\<close>

theorem contextPrompt_trailing_window:
  "(1 < i \<longrightarrow>
      contextPrompt i previousContext
        = CONTEXT_HEADER @ drop (length previousContext - 1500) previousContext @ CONTEXT_FOOTER
      \<and> length (drop (length previousContext - 1500) previousContext)
          = min 1500 (length previousContext)
      \<and> (length previousContext = 2000 \<longrightarrow>
            drop (length previousContext - 1500) previousContext = drop 500 previousContext
            \<and> length (drop 500 previousContext) = 1500)
      \<and> (length previousContext \<le> 1500 \<longrightarrow>
            drop (length previousContext - 1500) previousContext = previousContext)
      \<and> (\<exists>before after. \<forall>c service.
            generateSegment service route i estimate goal c
              = (case service
                        [\<lparr>role = lit ''user'',
                          content = before @ CONTEXT_HEADER @ drop (length c - 1500) c
                                      @ CONTEXT_FOOTER @ after\<rparr>] of
                   Inl e \<Rightarrow> Inl e
                 | Inr response \<Rightarrow>
                     (case optional_trim response of
                        Inl e \<Rightarrow> Inl e
                      | Inr None \<Rightarrow> Inl (Error (lit ''No text generated for segment.''))
                      | Inr (Some t) \<Rightarrow>
                          if t = [] then Inl (Error (lit ''No text generated for segment.''))
                          else Inr \<lparr>index = i, text = t, audioBuffer = None\<rparr>))))
   \<and> (\<exists>before after. \<forall>c.
        segmentPrompt route i estimate goal c = before @ contextPrompt i c @ after)
   \<and> generateSegment makeHackClubRequest route i estimate goal previousContext
       = (case makeHackClubRequest
                 [\<lparr>role = lit ''user'',
                   content = segmentPrompt route i estimate goal previousContext\<rparr>] of
            Inl e \<Rightarrow> Inl e
          | Inr response \<Rightarrow>
              (case optional_trim response of
                 Inl e \<Rightarrow> Inl e
               | Inr None \<Rightarrow> Inl (Error (lit ''No text generated for segment.''))
               | Inr (Some t) \<Rightarrow>
                   if t = [] then Inl (Error (lit ''No text generated for segment.''))
                   else Inr \<lparr>index = i, text = t, audioBuffer = None\<rparr>))
   \<and> (makeHackClubRequest
          [\<lparr>role = lit ''user'', content = segmentPrompt route i estimate goal previousContext\<rparr>]
        = makeHackClubRequest'
          [\<lparr>role = lit ''user'', content = segmentPrompt route i estimate goal previousContext\<rparr>]
      \<longrightarrow> generateSegment makeHackClubRequest route i estimate goal previousContext
          = generateSegment makeHackClubRequest' route i estimate goal previousContext)
   \<and> contextPrompt 1 previousContext = []
   \<and> segmentPrompt route 1 estimate goal previousContext
       = segmentPrompt route 1 estimate goal previousContext'"
proof (intro conjI impI)
  assume "1 < i"
  then show "contextPrompt i previousContext
      = CONTEXT_HEADER @ drop (length previousContext - 1500) previousContext @ CONTEXT_FOOTER"
    by (simp add: contextPrompt_def trailing_window)
next
  assume "1 < i"
  then obtain before after
    where window: "\<forall>c. segmentPrompt route i estimate goal c
             = before @ CONTEXT_HEADER @ drop (length c - 1500) c @ CONTEXT_FOOTER @ after"
    using segmentPrompt_window by blast
  show "\<exists>before after. \<forall>c service.
            generateSegment service route i estimate goal c
              = (case service
                        [\<lparr>role = lit ''user'',
                          content = before @ CONTEXT_HEADER @ drop (length c - 1500) c
                                      @ CONTEXT_FOOTER @ after\<rparr>] of
                   Inl e \<Rightarrow> Inl e
                 | Inr response \<Rightarrow>
                     (case optional_trim response of
                        Inl e \<Rightarrow> Inl e
                      | Inr None \<Rightarrow> Inl (Error (lit ''No text generated for segment.''))
                      | Inr (Some t) \<Rightarrow>
                          if t = [] then Inl (Error (lit ''No text generated for segment.''))
                          else Inr \<lparr>index = i, text = t, audioBuffer = None\<rparr>))"
    by (intro exI [of _ before] exI [of _ after] allI)
      (simp only: generateSegment_request window)
next
  show "\<exists>before after. \<forall>c.
          segmentPrompt route i estimate goal c = before @ contextPrompt i c @ after"
    by (rule segmentPrompt_embeds_context)
next
  show "generateSegment makeHackClubRequest route i estimate goal previousContext
       = (case makeHackClubRequest
                 [\<lparr>role = lit ''user'',
                   content = segmentPrompt route i estimate goal previousContext\<rparr>] of
            Inl e \<Rightarrow> Inl e
          | Inr response \<Rightarrow>
              (case optional_trim response of
                 Inl e \<Rightarrow> Inl e
               | Inr None \<Rightarrow> Inl (Error (lit ''No text generated for segment.''))
               | Inr (Some t) \<Rightarrow>
                   if t = [] then Inl (Error (lit ''No text generated for segment.''))
                   else Inr \<lparr>index = i, text = t, audioBuffer = None\<rparr>))"
    by (rule generateSegment_request)
next
  show "segmentPrompt route 1 estimate goal previousContext
          = segmentPrompt route 1 estimate goal previousContext'"
    by (simp add: segmentPrompt_def contextPrompt_first)
next
  assume "makeHackClubRequest
            [\<lparr>role = lit ''user'', content = segmentPrompt route i estimate goal previousContext\<rparr>]
          = makeHackClubRequest'
            [\<lparr>role = lit ''user'', content = segmentPrompt route i estimate goal previousContext\<rparr>]"
  then show "generateSegment makeHackClubRequest route i estimate goal previousContext
               = generateSegment makeHackClubRequest' route i estimate goal previousContext"
    by (simp add: generateSegment_def)
qed (simp_all add: contextPrompt_first)

theorem contextPrompt_trailing_window_witness:
  "contextPrompt 2 (replicate 500 0x61 @ replicate 1500 0x62)
     = CONTEXT_HEADER @ replicate 1500 0x62 @ CONTEXT_FOOTER
   \<and> contextPrompt 3 (replicate 40 0x61) = CONTEXT_HEADER @ replicate 40 0x61 @ CONTEXT_FOOTER
   \<and> generateSegment (\<lambda>m. Inr (Some (JString (lit ''Once''))))
        \<lparr>startAddress = lit ''A'', endAddress = lit ''B'', distance = lit ''1.0 km'',
         duration = lit ''3min'', durationSeconds = Double 185 0, travelMode = WALKING,
         voiceName = lit ''Kore'', storyStyle = FANTASY\<rparr>
        3 4 (lit ''goal'') (replicate 40 0x61)
      = Inr \<lparr>index = 3, text = lit ''Once'', audioBuffer = None\<rparr>"
proof -
  have trimmed: "trim (lit ''Once'') = lit ''Once''"
    by (simp add: trim_def lit_def code_unit_def isWhiteSpace_def)
  have nonempty: "lit ''Once'' \<noteq> []"
    by (simp add: lit_def)
  have blocks: "contextPrompt 2 (replicate 500 0x61 @ replicate 1500 0x62)
     = CONTEXT_HEADER @ replicate 1500 0x62 @ CONTEXT_FOOTER
   \<and> contextPrompt 3 (replicate 40 0x61) = CONTEXT_HEADER @ replicate 40 0x61 @ CONTEXT_FOOTER"
    using
      contextPrompt_trailing_window [where i = 2
        and previousContext = "replicate 500 0x61 @ replicate 1500 0x62"]
      contextPrompt_trailing_window [where i = 3 and previousContext = "replicate 40 0x61"]
    by simp
  have "generateSegment (\<lambda>m. Inr (Some (JString (lit ''Once''))))
        \<lparr>startAddress = lit ''A'', endAddress = lit ''B'', distance = lit ''1.0 km'',
         duration = lit ''3min'', durationSeconds = Double 185 0, travelMode = WALKING,
         voiceName = lit ''Kore'', storyStyle = FANTASY\<rparr>
        3 4 (lit ''goal'') (replicate 40 0x61)
      = (case optional_trim (Some (JString (lit ''Once''))) of
           Inl e \<Rightarrow> Inl e
         | Inr None \<Rightarrow> Inl (Error (lit ''No text generated for segment.''))
         | Inr (Some t) \<Rightarrow>
             if t = [] then Inl (Error (lit ''No text generated for segment.''))
             else Inr \<lparr>index = 3, text = t, audioBuffer = None\<rparr>)"
    using contextPrompt_trailing_window
      [where i = 3 and previousContext = "replicate 40 0x61"
         and makeHackClubRequest = "\<lambda>m. Inr (Some (JString (lit ''Once'')))"
         and route = "\<lparr>startAddress = lit ''A'', endAddress = lit ''B'',
            distance = lit ''1.0 km'', duration = lit ''3min'', durationSeconds = Double 185 0,
            travelMode = WALKING, voiceName = lit ''Kore'', storyStyle = FANTASY\<rparr>"
         and estimate = 4 and goal = "lit ''goal''"]
    by (simp only: sum.case)
  then have "generateSegment (\<lambda>m. Inr (Some (JString (lit ''Once''))))
        \<lparr>startAddress = lit ''A'', endAddress = lit ''B'', distance = lit ''1.0 km'',
         duration = lit ''3min'', durationSeconds = Double 185 0, travelMode = WALKING,
         voiceName = lit ''Kore'', storyStyle = FANTASY\<rparr>
        3 4 (lit ''goal'') (replicate 40 0x61)
      = Inr \<lparr>index = 3, text = lit ''Once'', audioBuffer = None\<rparr>"
    using nonempty by (simp only: optional_trim.simps trimmed sum.case option.case if_False)
  with blocks show ?thesis
    by blast
qed

section \<open>Properties of the numbers\<close>

lemma bit_length_0 [simp]: "bit_length 0 = 0"
  by (simp add: bit_length.simps)

lemma bit_length_pos: "0 < k \<Longrightarrow> bit_length k = Suc (bit_length (k div 2))"
  by (simp add: bit_length.simps [of k])

lemma bit_length_1 [simp]: "bit_length 1 = 1"
  by (simp add: bit_length_pos)

lemma bit_length_Suc_0 [simp]: "bit_length (Suc 0) = 1"
  by (simp add: bit_length_pos)

lemma bit_length_numeral [simp]:
  "bit_length (numeral (Num.Bit0 k)) = Suc (bit_length (numeral k))"
  "bit_length (numeral (Num.Bit1 k)) = Suc (bit_length (numeral k))"
  by (simp_all add: bit_length_pos)

lemma bit_length_le: "k < 2 ^ n \<Longrightarrow> bit_length k \<le> n"
proof (induction n arbitrary: k)
  case 0
  then show ?case by simp
next
  case (Suc n)
  show ?case
  proof (cases "k = 0")
    case True
    then show ?thesis by simp
  next
    case False
    from Suc.prems have "k div 2 < 2 ^ n"
      by simp
    then have "bit_length (k div 2) \<le> n"
      by (rule Suc.IH)
    with False show ?thesis
      by (simp add: bit_length_pos)
  qed
qed

lemma less_bit_length: "k < 2 ^ bit_length k"
proof (induction k rule: less_induct)
  case (less k)
  show ?case
  proof (cases "k = 0")
    case True
    then show ?thesis by simp
  next
    case False
    then have "k div 2 < k"
      by simp
    then have "k div 2 < 2 ^ bit_length (k div 2)"
      by (rule less.IH)
    then have "k < 2 * 2 ^ bit_length (k div 2)"
      by linarith
    with False show ?thesis
      by (simp add: bit_length_pos)
  qed
qed

lemma round_shift_error:
  "2 * (round_shift k s * 2 ^ s) \<le> 2 * k + 2 ^ s"
  "2 * k \<le> 2 * (round_shift k s * 2 ^ s) + 2 ^ s"
proof -
  define q where "q = k div 2 ^ s"
  define r where "r = k mod 2 ^ s"
  define R where "R = round_shift k s"
  have k: "k = q * 2 ^ s + r"
    unfolding q_def r_def by (rule div_mult_mod_eq [symmetric])
  have r: "r < 2 ^ s"
    by (simp add: r_def)
  have "R = (if 2 * r < 2 ^ s then q else if 2 ^ s < 2 * r then q + 1
             else if even q then q else q + 1)"
    by (simp add: R_def round_shift_def q_def r_def Let_def)
  then consider "R = q" "2 * r \<le> 2 ^ s" | "R = q + 1" "2 ^ s \<le> 2 * r"
    by (cases "2 * r < 2 ^ s"; cases "2 ^ s < 2 * r"; cases "even q") simp_all
  then have "2 * (R * 2 ^ s) \<le> 2 * (q * 2 ^ s + r) + 2 ^ s
             \<and> 2 * (q * 2 ^ s + r) \<le> 2 * (R * 2 ^ s) + 2 ^ s"
    using r by cases (simp_all add: algebra_simps)
  then show "2 * (round_shift k s * 2 ^ s) \<le> 2 * k + 2 ^ s"
    and "2 * k \<le> 2 * (round_shift k s * 2 ^ s) + 2 ^ s"
    unfolding R_def k [symmetric] by simp_all
qed

lemma round_shift_0 [simp]: "round_shift k 0 = k"
  by (simp add: round_shift_def)

lemma round_shift_le: "round_shift k (bit_length k - 53) \<le> 2 ^ 53"
proof (cases "bit_length k \<le> 53")
  case True
  then have "bit_length k - 53 = 0"
    by simp
  moreover have "k < 2 ^ 53"
    using less_bit_length [of k] True
    by (meson less_le_trans one_le_numeral power_increasing)
  ultimately show ?thesis
    by simp
next
  case False
  define s where "s = bit_length k - 53"
  have "k < 2 ^ (53 + s)"
    using less_bit_length [of k] False by (simp add: s_def)
  then have "k < 2 ^ 53 * 2 ^ s"
    by (simp add: power_add)
  then have "k div 2 ^ s < 2 ^ 53"
    by (simp add: less_mult_imp_div_less)
  then have "round_shift k s \<le> 2 ^ 53"
    by (simp add: round_shift_def Let_def)
  then show ?thesis
    by (simp add: s_def)
qed


text \<open>The constant for \<open>0.08\<close> is the double that the division of 8 by 100 yields.\<close>

lemma d_0_08_nearest: "value_of (fdiv (Double 8 0) (Double 100 0)) = value_of d_0_08"
  by (simp add: fdiv_def round53_def round_shift_def Let_def d_0_08_def value_of_def)

lemma of_length_exact: "n < 2 ^ 53 \<Longrightarrow> of_length n = Double n 0"
  using bit_length_le [of n 53] by (simp add: of_length_def round53_def)

lemma floor_d_shift:
  assumes "0 \<le> e + int j"
  shows "floor_d (Double m e) = int ((m * 2 ^ nat (e + int j)) div 2 ^ j)"
proof (cases "0 \<le> e")
  case True
  then have "nat (e + int j) = nat e + j"
    by simp
  with True show ?thesis
    by (simp add: floor_d_def power_add)
next
  case False
  define a where "a = nat (e + int j)"
  define b where "b = nat (- e)"
  have j: "j = a + b"
    using False assms by (simp add: a_def b_def)
  have "(m * 2 ^ a) div (2 ^ a * 2 ^ b) = m div 2 ^ b"
    by (simp add: div_mult2_eq [symmetric] mult.commute)
  then have "(m * 2 ^ nat (e + int j)) div 2 ^ j = m div 2 ^ nat (- e)"
    unfolding a_def [symmetric] b_def [symmetric] by (simp add: j power_add)
  with False show ?thesis
    by (simp add: floor_d_def)
qed

lemma audio_frames_bounds:
  assumes "n < 2 ^ 22"
  shows "int (1920 * n) - 1 \<le> floor_d (fmul (Double 24000 0) (fmul (of_length n) d_0_08))"
    and "floor_d (fmul (Double 24000 0) (fmul (of_length n) d_0_08)) \<le> int (1920 * n)"
proof -
  define K1 where "K1 = n * 5764607523034235"
  define s1 where "s1 = bit_length K1 - 53"
  define R1 where "R1 = round_shift K1 s1"
  define K2 where "K2 = 24000 * R1"
  define s2 where "s2 = bit_length K2 - 53"
  define R2 where "R2 = round_shift K2 s2"
  define W where "W = R2 * 2 ^ (s1 + s2)"
  define P where "P = R1 * 2 ^ s1"
  have n: "n < 4194304"
    using assms by simp
  then have "n < 2 ^ 53"
    by simp
  then have "fmul (of_length n) d_0_08 = Double R1 (int s1 - 56)"
    by (simp add: of_length_exact fmul_def d_0_08_def round53_def Let_def
        R1_def s1_def K1_def)
  then have result: "fmul (Double 24000 0) (fmul (of_length n) d_0_08)
                       = Double R2 (int s1 - 56 + int s2)"
    by (simp add: fmul_def round53_def Let_def R2_def s2_def K2_def)
  have "0 \<le> int s1 - 56 + int s2 + int 56"
    by simp
  from floor_d_shift [OF this, of R2]
  have floor: "floor_d (Double R2 (int s1 - 56 + int s2)) = int (W div 2 ^ 56)"
    by (simp add: W_def nat_add_distrib)
  have "K1 < 4194304 * 9007199254740992"
    unfolding K1_def using n by (intro mult_strict_mono) simp_all
  then have "K1 < 2 ^ 75"
    by simp
  then have "bit_length K1 \<le> 75"
    by (rule bit_length_le)
  then have s1: "s1 \<le> 22"
    by (simp add: s1_def)
  have "R1 \<le> 2 ^ 53"
    unfolding R1_def s1_def by (rule round_shift_le)
  then have "K2 < 2 ^ 68"
    by (simp add: K2_def)
  then have "bit_length K2 \<le> 68"
    by (rule bit_length_le)
  then have s2: "s2 \<le> 15"
    by (simp add: s2_def)
  have "(2::nat) ^ s1 \<le> 2 ^ 22"
    using s1 by (intro power_increasing) simp_all
  then have A: "(2::nat) ^ s1 \<le> 4194304"
    by simp
  have "(2::nat) ^ (s1 + s2) \<le> 2 ^ 37"
    using s1 s2 by (intro power_increasing) simp_all
  then have AB: "(2::nat) ^ (s1 + s2) \<le> 137438953472"
    by simp
  have e1: "2 * P \<le> 2 * K1 + 2 ^ s1" "2 * K1 \<le> 2 * P + 2 ^ s1"
    unfolding P_def R1_def by (rule round_shift_error)+
  have r2: "2 * (R2 * 2 ^ s2) \<le> 2 * K2 + 2 ^ s2" "2 * K2 \<le> 2 * (R2 * 2 ^ s2) + 2 ^ s2"
    unfolding R2_def by (rule round_shift_error)+
  have "2 * (R2 * 2 ^ s2) * 2 ^ s1 \<le> (2 * K2 + 2 ^ s2) * 2 ^ s1"
    by (rule mult_le_mono1) (rule r2(1))
  moreover have "(2 * K2) * 2 ^ s1 \<le> (2 * (R2 * 2 ^ s2) + 2 ^ s2) * 2 ^ s1"
    by (rule mult_le_mono1) (rule r2(2))
  ultimately have e2: "2 * W \<le> 48000 * P + 2 ^ (s1 + s2)" "48000 * P \<le> 2 * W + 2 ^ (s1 + s2)"
    by (simp_all add: W_def P_def K2_def power_add algebra_simps)
  have K1: "24000 * K1 = n * 138350580552821637120 + n * 2880"
    by (simp add: K1_def)
  define A where "A = (2::nat) ^ s1"
  define C where "C = (2::nat) ^ (s1 + s2)"
  note facts = e1 [folded A_def] e2 [folded C_def] K1 A [folded A_def] AB [folded C_def] n
  have "W < n * 138350580552821637120 + 72057594037927936"
    using facts by linarith
  then have upper: "W < (1920 * n + 1) * 72057594037927936"
    by (simp add: algebra_simps)
  have lower: "(1920 * n - 1) * 72057594037927936 \<le> W"
  proof (cases "n = 0")
    case True
    then show ?thesis by simp
  next
    case False
    then have "(1920 * n - 1) * 72057594037927936 = n * 138350580552821637120 - 72057594037927936"
      by (simp add: algebra_simps diff_mult_distrib)
    moreover have "n * 138350580552821637120 \<le> W + 72057594037927936"
      using facts by linarith
    ultimately show ?thesis
      by linarith
  qed
  have "W div 2 ^ 56 < 1920 * n + 1"
    using upper by (simp add: less_mult_imp_div_less)
  moreover have "1920 * n - 1 \<le> W div 2 ^ 56"
  proof -
    have "((1920 * n - 1) * 2 ^ 56) div 2 ^ 56 \<le> W div 2 ^ 56"
      using lower by (intro div_le_mono) simp
    then show ?thesis
      by simp
  qed
  ultimately show
    "int (1920 * n) - 1 \<le> floor_d (fmul (Double 24000 0) (fmul (of_length n) d_0_08))"
    and "floor_d (fmul (Double 24000 0) (fmul (of_length n) d_0_08)) \<le> int (1920 * n)"
    unfolding result floor by linarith+
qed

section \<open>Properties of the Audio Synthesis Adapter\<close>

lemma fill_silence_zero:
  "set channel \<subseteq> {0} \<Longrightarrow> fill_silence i len channel = channel"
proof (induction i len channel rule: fill_silence.induct)
  case (1 i len channel)
  show ?case
  proof (cases "i < len")
    case True
    have same: "channel[i := 0] = channel"
    proof (cases "i < length channel")
      case True
      with "1.prems" have "channel ! i = 0"
        using nth_mem by fastforce
      then show ?thesis
        by (metis list_update_id)
    next
      case False
      then have "length channel \<le> i"
        by simp
      then show ?thesis
        by (rule list_update_beyond)
    qed
    with True "1.IH" "1.prems" have "fill_silence (i + 1) len channel = channel"
      by simp
    with True same show ?thesis
      by (simp add: fill_silence.simps [of i len channel])
  next
    case False
    then show ?thesis
      by (simp add: fill_silence.simps [of i len channel])
  qed
qed

lemma generateSegmentAudio_eq:
  "generateSegmentAudio text' createBuffer voiceName' =
     (let n = nat (floor_d (fmul (Double 24000 0) (fmul (of_length (length text')) d_0_08)))
                mod 2 ^ 32
      in if n = 0 then Inl NotSupportedError
         else Inr \<lparr>numberOfChannels = 1, frames = n, sampleRate = 24000,
                    channelData = [replicate n 0]\<rparr>)"
  by (simp add: generateSegmentAudio_def createBuffer_def Let_def fill_silence_zero)

lemma audio_frames_29:
  "floor_d (fmul (Double 24000 0) (fmul (of_length 29) d_0_08)) = 55679"
  by (simp add: fmul_def of_length_def round53_def round_shift_def floor_d_def d_0_08_def
      Let_def)

text \<open>
  C8, as the claim states it, fails: for a text of 29 code units the product
  \<open>24000 * (29 * 0.08)\<close> is rounded to a double just below 55680, so the buffer has 55679
  frames, one less than \<open>floor (24000 * 0.08 * 29) = 55680\<close>, whether that formula is
  evaluated exactly or in doubles from left to right.
\<close>

theorem generateSegmentAudio_frames_29:
  "map_sum id frames (generateSegmentAudio (replicate 29 0x61) createBuffer (lit ''Kore'')) = Inr 55679
   \<and> \<lfloor>(24000 :: rat) * (8 / 100) * 29\<rfloor> = 55680
   \<and> floor_d (fmul (fmul (Double 24000 0) d_0_08) (of_length 29)) = 55680"
  by (simp add: generateSegmentAudio_eq audio_frames_29)
    (simp add: fmul_def of_length_def round53_def round_shift_def floor_d_def d_0_08_def Let_def)

text \<open>
  C8, amended. With an audio context whose \<open>createBuffer\<close> is that of the Web Audio
  interface, for every narration text that is not empty and short enough for its frame
  count to fit the \<open>unsigned long\<close> length of \<open>createBuffer\<close> (\<open>1920 * length < 2\<^sup>3\<^sup>2\<close>),
  \<open>generateSegmentAudio\<close> returns a buffer of silence with one channel and a sample rate of
  24000 Hz whose frame count is the floor of the double product \<open>24000 * (length * 0.08)\<close>:
  that is \<open>1920 * length\<close> or one frame less. For the empty text \<open>createBuffer\<close> throws
  \<open>NotSupportedError\<close>, and \<open>generateSegmentAudio\<close> throws it again.
\<close>

theorem generateSegmentAudio_buffer:
  "(text' \<noteq> [] \<longrightarrow> 1920 * length text' < 2 ^ 32 \<longrightarrow>
      (\<exists>buffer. generateSegmentAudio text' createBuffer voiceName' = Inr buffer
         \<and> numberOfChannels buffer = 1
         \<and> sampleRate buffer = 24000
         \<and> int (frames buffer)
             = floor_d (fmul (Double 24000 0) (fmul (of_length (length text')) d_0_08))
         \<and> (frames buffer = 1920 * length text' \<or> frames buffer = 1920 * length text' - 1)
         \<and> channelData buffer = [replicate (frames buffer) 0]))
   \<and> generateSegmentAudio [] createBuffer voiceName' = Inl NotSupportedError"
proof (intro conjI impI)
  assume nonempty: "text' \<noteq> []" and fits: "1920 * length text' < 2 ^ 32"
  define n where "n = length text'"
  define F where "F = floor_d (fmul (Double 24000 0) (fmul (of_length n) d_0_08))"
  have n: "0 < n" "1920 * n < 4294967296"
    using nonempty fits by (simp_all add: n_def)
  then have "n < 2 ^ 22"
    by simp
  then have "int (1920 * n) - 1 \<le> F" and "F \<le> int (1920 * n)"
    unfolding F_def by (rule audio_frames_bounds)+
  with n have F: "0 < F" "F < 4294967296" "nat F = 1920 * n \<or> nat F = 1920 * n - 1"
    by linarith+
  then have "nat F mod 2 ^ 32 = nat F" and "nat F \<noteq> 0"
    by simp_all
  then have "generateSegmentAudio text' createBuffer voiceName'
               = Inr \<lparr>numberOfChannels = 1, frames = nat F, sampleRate = 24000,
                      channelData = [replicate (nat F) 0]\<rparr>"
    by (simp add: generateSegmentAudio_eq Let_def flip: F_def n_def)
  with F show "\<exists>buffer. generateSegmentAudio text' createBuffer voiceName' = Inr buffer
         \<and> numberOfChannels buffer = 1
         \<and> sampleRate buffer = 24000
         \<and> int (frames buffer)
             = floor_d (fmul (Double 24000 0) (fmul (of_length (length text')) d_0_08))
         \<and> (frames buffer = 1920 * length text' \<or> frames buffer = 1920 * length text' - 1)
         \<and> channelData buffer = [replicate (frames buffer) 0]"
    by (simp add: F_def n_def)
next
  show "generateSegmentAudio [] createBuffer voiceName' = Inl NotSupportedError"
    by (simp add: generateSegmentAudio_eq fmul_def of_length_def round53_def floor_d_def
        d_0_08_def)
qed

theorem generateSegmentAudio_buffer_witness:
  "\<exists>buffer. generateSegmentAudio (replicate 29 0x61) createBuffer (lit ''Kore'') = Inr buffer
     \<and> numberOfChannels buffer = 1
     \<and> sampleRate buffer = 24000
     \<and> (frames buffer = 55680 \<or> frames buffer = 55679)
     \<and> channelData buffer = [replicate (frames buffer) 0]"
  using generateSegmentAudio_buffer [of "replicate 29 0x61" "lit ''Kore''"]
  by auto

section \<open>Properties of the Segment Sizing Calculator\<close>

lemma bit_length_greater: "2 ^ j \<le> k \<Longrightarrow> j < bit_length k"
proof -
  assume "2 ^ j \<le> k"
  with less_bit_length [of k] have "(2::nat) ^ j < 2 ^ bit_length k"
    by linarith
  then show ?thesis
    by simp
qed

lemma bit_length_lower: "0 < k \<Longrightarrow> 2 ^ (bit_length k - 1) \<le> k"
proof (induction k rule: less_induct)
  case (less k)
  show ?case
  proof (cases "k div 2 = 0")
    case True
    with less.prems have "k = 1"
      by (simp add: div_eq_0_iff)
    then show ?thesis
      by simp
  next
    case False
    then have pos: "0 < k div 2" and "k div 2 < k"
      using less.prems by simp_all
    then have "2 ^ (bit_length (k div 2) - 1) \<le> k div 2"
      by (intro less.IH)
    moreover have "bit_length (k div 2) = Suc (bit_length (k div 2) - 1)"
      using pos by (simp add: bit_length_pos)
    ultimately have "2 ^ bit_length (k div 2) \<le> 2 * (k div 2)"
      by (metis mult_le_mono2 power_Suc)
    then have "2 ^ bit_length (k div 2) \<le> k"
      by linarith
    with less.prems show ?thesis
      by (simp add: bit_length_pos)
  qed
qed

lemma round_shift_le_multiple:
  assumes "k \<le> z * 2 ^ s"
  shows "round_shift k s \<le> z"
proof (cases "k div 2 ^ s < z")
  case True
  then show ?thesis
    by (simp add: round_shift_def Let_def)
next
  case False
  moreover have "k div 2 ^ s \<le> z"
    using assms by (metis div_le_mono div_mult_self_is_m zero_less_numeral zero_less_power)
  ultimately have q: "k div 2 ^ s = z"
    by simp
  have "k = k div 2 ^ s * 2 ^ s + k mod 2 ^ s"
    by (rule div_mult_mod_eq [symmetric])
  with q assms have "k mod 2 ^ s = 0"
    by simp
  with q show ?thesis
    by (simp add: round_shift_def Let_def)
qed

lemma round_shift_above_half:
  assumes "2 * (z * 2 ^ s) + 2 ^ s < 2 * k"
  shows "z < round_shift k s"
proof -
  define q where "q = k div 2 ^ s"
  define r where "r = k mod 2 ^ s"
  have k: "k = q * 2 ^ s + r"
    unfolding q_def r_def by (rule div_mult_mod_eq [symmetric])
  have r: "r < 2 ^ s"
    by (simp add: r_def)
  have "z * 2 ^ s < (q + 1) * 2 ^ s"
    using assms k r by (simp add: algebra_simps)
  then have "z < q + 1"
    by (simp only: mult_less_cancel2)
  then have "z \<le> q"
    by simp
  show ?thesis
  proof (cases "z < q")
    case True
    then show ?thesis
      by (simp add: round_shift_def Let_def flip: q_def)
  next
    case False
    with \<open>z \<le> q\<close> have "z = q"
      by simp
    with assms k have "2 ^ s < 2 * r"
      by (simp add: algebra_simps)
    with \<open>z = q\<close> show ?thesis
      by (simp add: round_shift_def Let_def flip: q_def r_def)
  qed
qed

lemma sticky_le:
  fixes n z :: nat
  assumes "n \<le> 30 * z" and "even z"
  shows "2 * (n div 60) + (if n mod 60 = 0 then 0 else 1) \<le> z"
proof -
  obtain y where z: "z = 2 * y"
    using assms(2) by (elim evenE)
  define a where "a = n div 60"
  define b where "b = n mod 60"
  have n: "n = 60 * a + b"
    by (simp add: a_def b_def)
  have "2 * a + (if b = 0 then 0 else 1) \<le> z"
  proof (cases "b = 0")
    case True
    with n assms(1) z show ?thesis
      by simp
  next
    case False
    with n assms(1) z have "60 * a < 60 * y"
      by linarith
    then have "a < y"
      by simp
    with False z show ?thesis
      by simp
  qed
  then show ?thesis
    by (simp add: a_def b_def)
qed

lemma sticky_greater:
  fixes n z :: nat
  assumes "30 * z < n" and "even z"
  shows "z < 2 * (n div 60) + (if n mod 60 = 0 then 0 else 1)"
proof -
  obtain y where z: "z = 2 * y"
    using assms(2) by (elim evenE)
  define a where "a = n div 60"
  define b where "b = n mod 60"
  have n: "n = 60 * a + b" and b: "b < 60"
    by (simp_all add: a_def b_def)
  have "z < 2 * a + (if b = 0 then 0 else 1)"
  proof (cases "b = 0")
    case True
    with n assms(1) z show ?thesis
      by simp
  next
    case False
    from assms(1) z have "60 * y < n"
      by simp
    with n b have "60 * y < 60 * a + 60"
      by linarith
    then have "y \<le> a"
      by linarith
    with False z show ?thesis
      by simp
  qed
  then show ?thesis
    by (simp add: a_def b_def)
qed

lemma ceil_d_negative:
  "0 < g \<Longrightarrow> ceil_d (Double R (- int g)) = int ((R + 2 ^ g - 1) div 2 ^ g)"
  by (simp add: ceil_d_def)

lemma ceil_div_le:
  fixes R c g :: nat
  assumes "R \<le> c * 2 ^ g"
  shows "(R + 2 ^ g - 1) div 2 ^ g \<le> c"
proof -
  have "(0::nat) < 2 ^ g"
    by simp
  with assms have "R + 2 ^ g - 1 < c * 2 ^ g + 2 ^ g"
    by linarith
  then have "R + 2 ^ g - 1 < (c + 1) * 2 ^ g"
    by (simp add: algebra_simps)
  then have "(R + 2 ^ g - 1) div 2 ^ g < c + 1"
    by (simp add: less_mult_imp_div_less)
  then show ?thesis
    by simp
qed

lemma ceil_div_greater:
  fixes R j g :: nat
  assumes "j * 2 ^ g < R"
  shows "j < (R + 2 ^ g - 1) div 2 ^ g"
proof -
  have "j * 2 ^ g + 2 ^ g \<le> R + 2 ^ g - 1"
    using assms by linarith
  then have "(j + 1) * 2 ^ g \<le> R + 2 ^ g - 1"
    by (simp add: algebra_simps)
  then have "((j + 1) * 2 ^ g) div 2 ^ g \<le> (R + 2 ^ g - 1) div 2 ^ g"
    by (rule div_le_mono)
  then show ?thesis
    by simp
qed

lemma fdiv_60_form:
  "fdiv (Double m e) (Double 60 0)
     = (let k = 2 * ((m * 2 ^ 61) div 60) + (if (m * 2 ^ 61) mod 60 = 0 then 0 else 1);
            s = bit_length k - 53
        in Double (round_shift k s) (e - 62 + int s))"
  by (simp add: fdiv_def round53_def Let_def)

lemma value_of_fdiv_60:
  assumes "62 - e = int u"
  shows "value_of (Double m e) / 60 = of_nat (m * 2 ^ 61) / of_nat (30 * 2 ^ u)"
proof (cases "0 \<le> e")
  case True
  with assms have "u + nat e = 62"
    by simp
  then have "(2::rat) ^ u * 2 ^ nat e = 2 ^ 62"
    by (simp flip: power_add)
  then have "(2::rat) ^ 61 * 2 = 2 ^ u * 2 ^ nat e"
    by simp
  with True show ?thesis
    by (simp add: value_of_def field_simps)
next
  case False
  with assms have "u = 62 + nat (- e)"
    by simp
  then have "(2::rat) ^ u = 2 ^ 62 * 2 ^ nat (- e)"
    by (simp add: power_add)
  with False show ?thesis
    by (simp add: value_of_def field_simps)
qed

text \<open>
  Division by 60 keeps the ceiling exact up to \<open>2\<^sup>5\<^sup>3\<close>. The rounded quotient has between 57
  and 110 bits before it is cut to 53, so its last place is at most \<open>2\<^sup>-\<^sup>5\<close>. It does not
  exceed the exact ceiling \<open>c\<close>, which is a double itself. And when \<open>c\<close> is at least 2 it
  exceeds \<open>c - 1\<close>: the dividend is a multiple of \<open>2\<^sup>s\<^sup>+\<^sup>4\<close> that lies above another multiple,
  so the exact quotient lies more than half a last place above \<open>c - 1\<close>.
\<close>

lemma fdiv_60_exact:
  assumes m: "0 < m" "m \<le> 2 ^ 53" and bound: "value_of (Double m e) \<le> 2 ^ 53"
  shows "max 1 (ceil_d (fdiv (Double m e) (Double 60 0)))
           = max 1 \<lceil>value_of (Double m e) / 60\<rceil>"
proof -
  define n where "n = m * 2 ^ 61"
  define k where "k = 2 * (n div 60) + (if n mod 60 = 0 then 0 else 1)"
  define s where "s = bit_length k - 53"
  define R where "R = round_shift k s"
  have quot: "fdiv (Double m e) (Double 60 0) = Double R (e - 62 + int s)"
    by (simp add: fdiv_60_form Let_def R_def s_def k_def n_def)

  have "1 * 2 ^ 61 \<le> n"
    unfolding n_def using m(1) by (intro mult_le_mono1) simp
  then have "2 ^ 61 div 60 \<le> n div 60"
    by (intro div_le_mono) simp
  then have "2 ^ 55 \<le> n div 60"
    by simp
  then have "2 ^ 56 \<le> k"
    by (simp add: k_def)
  then have "56 < bit_length k"
    by (rule bit_length_greater)
  then have s4: "4 \<le> s" and bl: "bit_length k = s + 53"
    by (simp_all add: s_def)
  have "0 < k"
    using \<open>2 ^ 56 \<le> k\<close> by (metis less_le_trans zero_less_numeral zero_less_power)
  then have "2 ^ (bit_length k - 1) \<le> k"
    by (rule bit_length_lower)
  then have "2 * 2 ^ (s + 51) \<le> k"
    by (simp add: bl flip: power_Suc)
  then have "2 * 2 ^ (s + 51) \<le> 2 * (n div 60) + 1"
    by (simp add: k_def split: if_splits)
  then have "2 ^ (s + 51) \<le> n div 60"
    by linarith
  then have "60 * 2 ^ (s + 51) \<le> 60 * (n div 60)"
    by simp
  also have "\<dots> \<le> n"
    by simp
  finally have low: "60 * 2 ^ (s + 51) \<le> m * 2 ^ 61"
    by (simp add: n_def)

  have small: "j \<le> 108" if "60 * 2 ^ j \<le> (2::nat) ^ 114" for j
  proof (rule ccontr)
    assume "\<not> j \<le> 108"
    then have "(2::nat) ^ 109 \<le> 2 ^ j"
      by (intro power_increasing) simp_all
    with that show False
      by simp
  qed
  have "m * 2 ^ 61 \<le> 2 ^ 53 * 2 ^ 61"
    using m(2) by (rule mult_le_mono1)
  with low have "60 * 2 ^ (s + 51) \<le> (2::nat) ^ 114"
    by simp
  then have "s + 51 \<le> 108"
    by (rule small)
  then have s57: "s \<le> 57"
    by simp
  have place: "e + int s \<le> 57"
  proof (cases "0 < e")
    case False
    with s57 show ?thesis
      by simp
  next
    case True
    with bound have "rat_of_nat (m * 2 ^ nat e) \<le> rat_of_nat (2 ^ 53)"
      by (simp add: value_of_def)
    then have "m * 2 ^ nat e \<le> 2 ^ 53"
      by (simp only: of_nat_le_iff)
    then have scaled: "m * 2 ^ nat e * 2 ^ 61 \<le> 2 ^ 53 * 2 ^ 61"
      by (rule mult_le_mono1)
    have "60 * 2 ^ (s + 51 + nat e) = 60 * 2 ^ (s + 51) * (2::nat) ^ nat e"
      by (simp add: power_add)
    also have "\<dots> \<le> m * 2 ^ 61 * 2 ^ nat e"
      using low by (rule mult_le_mono1)
    also have "\<dots> = m * 2 ^ nat e * 2 ^ 61"
      by (simp only: mult.assoc mult.commute [of "2 ^ 61"])
    also note scaled
    also have "(2::nat) ^ 53 * 2 ^ 61 = 2 ^ 114"
      by simp
    finally have "60 * 2 ^ (s + 51 + nat e) \<le> (2::nat) ^ 114" .
    then have "s + 51 + nat e \<le> 108"
      by (rule small)
    with True show ?thesis
      by simp
  qed
  define g where "g = nat (62 - e - int s)"
  have g: "5 \<le> g" and E: "e - 62 + int s = - int g"
    using place by (simp_all add: g_def)
  have u: "62 - e = int (s + g)"
    using E by simp
  define T where "T = (30::nat) * 2 ^ (s + g)"
  have T: "0 < T"
    by (simp add: T_def)
  have exact: "value_of (Double m e) / 60 = of_nat n / of_nat T"
    unfolding n_def T_def using u by (rule value_of_fdiv_60)
  have ceil: "ceil_d (Double R (- int g)) = int ((R + 2 ^ g - 1) div 2 ^ g)"
    using g by (intro ceil_d_negative) simp

  define c where "c = nat \<lceil>rat_of_nat n / rat_of_nat T\<rceil>"
  have "0 \<le> rat_of_nat n / rat_of_nat T"
    by simp
  then have "- 1 < rat_of_nat n / rat_of_nat T"
    by linarith
  then have "0 \<le> \<lceil>rat_of_nat n / rat_of_nat T\<rceil>"
    by (simp only: zero_le_ceiling)
  then have c: "\<lceil>rat_of_nat n / rat_of_nat T\<rceil> = int c"
    by (simp add: c_def)
  have "rat_of_nat n / rat_of_nat T \<le> of_int (int c)"
    unfolding c [symmetric] by (rule le_of_int_ceiling)
  moreover have "0 < rat_of_nat T"
    using T by (simp only: of_nat_0_less_iff)
  ultimately have "rat_of_nat n \<le> of_int (int c) * rat_of_nat T"
    by (simp only: pos_divide_le_eq)
  then have "rat_of_nat n \<le> rat_of_nat (c * T)"
    by (simp only: of_int_of_nat_eq of_nat_mult)
  then have upper: "n \<le> c * T"
    by (simp only: of_nat_le_iff)
  have lower: "(c - 1) * T < n" if "2 \<le> c"
  proof -
    have "int c - 1 < \<lceil>rat_of_nat n / rat_of_nat T\<rceil>"
      by (simp add: c)
    then have "of_int (int c - 1) < rat_of_nat n / rat_of_nat T"
      by (simp only: less_ceiling_iff)
    moreover have "int c - 1 = int (c - 1)"
      using that by simp
    ultimately have "rat_of_nat (c - 1) < rat_of_nat n / rat_of_nat T"
      by (simp only: of_int_of_nat_eq)
    moreover have "0 < rat_of_nat T"
      using T by (simp only: of_nat_0_less_iff)
    ultimately have "rat_of_nat (c - 1) * rat_of_nat T < rat_of_nat n"
      by (simp only: pos_less_divide_eq)
    then have "rat_of_nat ((c - 1) * T) < rat_of_nat n"
      by (simp only: of_nat_mult)
    then show ?thesis
      by (simp only: of_nat_less_iff)
  qed

  have "n \<le> 30 * (c * 2 ^ (s + g))"
    using upper by (simp add: T_def algebra_simps)
  moreover have "even (c * 2 ^ (s + g))"
    using s4 by simp
  ultimately have "k \<le> c * 2 ^ (s + g)"
    unfolding k_def by (rule sticky_le)
  then have "k \<le> (c * 2 ^ g) * 2 ^ s"
    by (simp add: power_add algebra_simps)
  then have "R \<le> c * 2 ^ g"
    unfolding R_def by (rule round_shift_le_multiple)
  then have le: "(R + 2 ^ g - 1) div 2 ^ g \<le> c"
    by (rule ceil_div_le)

  have ge: "c \<le> (R + 2 ^ g - 1) div 2 ^ g" if "2 \<le> c"
  proof -
    define J where "J = c - 1"
    define P where "P = (2::nat) ^ (s + 4)"
    have "57 - s + (s + 4) = 61"
      using s57 by simp
    then have "(2::nat) ^ (57 - s) * 2 ^ (s + 4) = 2 ^ 61"
      by (simp only: flip: power_add)
    then have n_mult: "n = (m * 2 ^ (57 - s)) * P"
      by (simp add: n_def P_def)
    have "g - 4 + (s + 4) = s + g"
      using g by simp
    then have "(2::nat) ^ (g - 4) * 2 ^ (s + 4) = 2 ^ (s + g)"
      by (simp only: flip: power_add)
    then have T_mult: "J * T = (J * 30 * 2 ^ (g - 4)) * P"
      by (simp add: T_def P_def)
    have "J * T < n"
      unfolding J_def using that by (rule lower)
    then have "(J * 30 * 2 ^ (g - 4)) * P < (m * 2 ^ (57 - s)) * P"
      by (simp only: n_mult T_mult)
    then have "J * 30 * 2 ^ (g - 4) < m * 2 ^ (57 - s)"
      by (simp only: mult_less_cancel2)
    then have "J * 30 * 2 ^ (g - 4) + 1 \<le> m * 2 ^ (57 - s)"
      by simp
    then have "(J * 30 * 2 ^ (g - 4) + 1) * P \<le> (m * 2 ^ (57 - s)) * P"
      by (rule mult_le_mono1)
    then have gap: "J * T + P \<le> n"
      by (simp only: n_mult T_mult add_mult_distrib mult_1)
    obtain h where h: "(2::nat) ^ s = 4 * h" and "0 < h" and P: "P = 64 * h"
    proof
      have "s - 2 + 2 = s"
        using s4 by simp
      then have "(2::nat) ^ (s - 2) * 2 ^ 2 = 2 ^ s"
        by (simp only: flip: power_add)
      then show "(2::nat) ^ s = 4 * 2 ^ (s - 2)"
        by simp
      then show "P = 64 * 2 ^ (s - 2)"
        by (simp add: P_def power_add)
      show "(0::nat) < 2 ^ (s - 2)"
        by simp
    qed
    define Z where "Z = J * 2 ^ (s + g) + 2 * h"
    have "30 * Z = J * T + 60 * h"
      by (simp add: Z_def T_def algebra_simps)
    with gap P \<open>0 < h\<close> have "30 * Z < n"
      by linarith
    moreover have "even Z"
      using s4 by (simp add: Z_def)
    ultimately have "Z < k"
      unfolding k_def by (rule sticky_greater)
    then have "2 * ((J * 2 ^ g) * 2 ^ s) + 2 ^ s < 2 * k"
      by (simp add: Z_def h power_add algebra_simps)
    then have "J * 2 ^ g < R"
      unfolding R_def by (rule round_shift_above_half)
    then have "J < (R + 2 ^ g - 1) div 2 ^ g"
      by (rule ceil_div_greater)
    with that show ?thesis
      by (simp add: J_def)
  qed
  have "max 1 (int ((R + 2 ^ g - 1) div 2 ^ g)) = max 1 (int c)"
    using le ge by (cases "2 \<le> c") (auto simp: max_def)
  then show ?thesis
    by (simp only: quot E ceil exact c)
qed

lemma floor_d_value: "floor_d d = \<lfloor>value_of d\<rfloor>"
proof (cases "0 \<le> exponent d")
  case True
  have "\<lfloor>rat_of_nat (mantissa d * 2 ^ nat (exponent d))\<rfloor> = int (mantissa d * 2 ^ nat (exponent d))"
    by (rule floor_of_nat)
  with True show ?thesis
    by (simp add: floor_d_def value_of_def)
next
  case False
  have "\<lfloor>rat_of_nat (mantissa d) / rat_of_nat (2 ^ nat (- exponent d))\<rfloor>
          = int (mantissa d div 2 ^ nat (- exponent d))"
    by (rule floor_divide_of_nat_eq)
  with False show ?thesis
    by (simp add: floor_d_def value_of_def)
qed

lemma ceiling_divide_nat:
  assumes "0 < b"
  shows "\<lceil>rat_of_nat a / rat_of_nat b\<rceil> = int ((a + b - 1) div b)"
proof (rule ceiling_unique)
  define c where "c = (a + b - 1) div b"
  have "a + b - 1 = c * b + (a + b - 1) mod b" and "(a + b - 1) mod b < b"
    using assms by (simp_all add: c_def)
  then have "a \<le> c * b" and "c * b < a + b"
    using assms by linarith+
  then have le: "rat_of_nat a \<le> rat_of_nat c * rat_of_nat b"
    and less: "rat_of_nat c * rat_of_nat b < rat_of_nat a + rat_of_nat b"
    by (simp_all only: of_nat_le_iff of_nat_less_iff flip: of_nat_mult of_nat_add)
  have b: "0 < rat_of_nat b"
    using assms by simp
  from le b show "rat_of_nat a / rat_of_nat b \<le> of_int (int c)"
    by (simp only: pos_divide_le_eq of_int_of_nat_eq)
  from less b have "rat_of_nat c < (rat_of_nat a + rat_of_nat b) / rat_of_nat b"
    by (simp only: pos_less_divide_eq)
  also have "\<dots> = rat_of_nat a / rat_of_nat b + 1"
    using b by (simp add: add_divide_distrib)
  finally show "of_int (int c) - 1 < rat_of_nat a / rat_of_nat b"
    by simp
qed

lemma ceil_d_value: "ceil_d d = \<lceil>value_of d\<rceil>"
proof (cases "0 \<le> exponent d")
  case True
  have "\<lceil>rat_of_nat (mantissa d * 2 ^ nat (exponent d))\<rceil> = int (mantissa d * 2 ^ nat (exponent d))"
    by (rule ceiling_of_nat)
  with True show ?thesis
    by (simp add: ceil_d_def value_of_def)
next
  case False
  have "\<lceil>rat_of_nat (mantissa d) / rat_of_nat (2 ^ nat (- exponent d))\<rceil>
          = int ((mantissa d + 2 ^ nat (- exponent d) - 1) div 2 ^ nat (- exponent d))"
    by (rule ceiling_divide_nat) simp
  with False show ?thesis
    by (simp add: ceil_d_def value_of_def)
qed

lemma fdiv_zero: "ceil_d (fdiv (Double 0 e) (Double 60 0)) = 0"
  by (simp add: fdiv_60_form ceil_d_def)

lemma WORDS_PER_SEGMENT_value: "WORDS_PER_SEGMENT = 145"
  by (simp add: WORDS_PER_SEGMENT_def TARGET_SEGMENT_DURATION_SEC_def WORDS_PER_MINUTE_def
      fdiv_60_form fmul_def round53_def round_shift_def round_d_def Let_def)

text \<open>
  Beyond \<open>2\<^sup>5\<^sup>3\<close> seconds the rounding of the quotient can show: \<open>67553994410557504 / 60\<close> is
  rounded down to the integer \<open>2\<^sup>5\<^sup>0 + 1\<close>, one below the exact ceiling.
\<close>

lemma calculateTotalSegments_rounding_shows:
  "calculateTotalSegments (Double 67553994410557504 0) = 1125899906842625
   \<and> max 1 \<lceil>value_of (Double 67553994410557504 0) / 60\<rceil> = 1125899906842626"
proof -
  have "\<lceil>(67553994410557504::rat) / 60\<rceil> = 1125899906842626"
    by (rule ceiling_unique) simp_all
  then show ?thesis
    by (simp add: calculateTotalSegments_def fdiv_60_form TARGET_SEGMENT_DURATION_SEC_def
        round_shift_def ceil_d_def Let_def value_of_def)
qed

text \<open>
  C2. \<open>calculateTotalSegments D\<close> is \<open>max 1 (ceil (D / 60))\<close> for every duration \<open>D\<close> that is not
  negative, the quotient being the double that the division yields. For every \<open>D\<close> up to
  \<open>2\<^sup>5\<^sup>3\<close> seconds, so for all \<open>D\<close> from 0 to 14400, the rounding of the quotient does not
  show: the count is \<open>max 1 (ceil (D / 60))\<close> with the exact quotient. A duration of 185
  gives 4 and a duration of 0 gives 1.
\<close>

theorem calculateTotalSegments_ceiling:
  "calculateTotalSegments D = max 1 \<lceil>value_of (fdiv D (Double 60 0))\<rceil>
   \<and> (mantissa D \<le> 2 ^ 53 \<longrightarrow> value_of D \<le> 2 ^ 53
        \<longrightarrow> calculateTotalSegments D = max 1 \<lceil>value_of D / 60\<rceil>)
   \<and> calculateTotalSegments (Double 185 0) = 4
   \<and> calculateTotalSegments (Double 0 0) = 1"
proof (intro conjI impI)
  show "calculateTotalSegments D = max 1 \<lceil>value_of (fdiv D (Double 60 0))\<rceil>"
    by (simp add: calculateTotalSegments_def TARGET_SEGMENT_DURATION_SEC_def ceil_d_value)
next
  assume valid: "mantissa D \<le> 2 ^ 53" and bound: "value_of D \<le> 2 ^ 53"
  obtain m e where D: "D = Double m e"
    by (cases D)
  show "calculateTotalSegments D = max 1 \<lceil>value_of D / 60\<rceil>"
  proof (cases "m = 0")
    case True
    then show ?thesis
      by (simp add: D calculateTotalSegments_def TARGET_SEGMENT_DURATION_SEC_def fdiv_zero
          value_of_def)
  next
    case False
    with valid bound have "max 1 (ceil_d (fdiv (Double m e) (Double 60 0)))
                             = max 1 \<lceil>value_of (Double m e) / 60\<rceil>"
      by (intro fdiv_60_exact) (simp_all add: D)
    then show ?thesis
      by (simp add: D calculateTotalSegments_def TARGET_SEGMENT_DURATION_SEC_def)
  qed
next
  show "calculateTotalSegments (Double 185 0) = 4"
    by (simp add: calculateTotalSegments_def TARGET_SEGMENT_DURATION_SEC_def fdiv_60_form
        round_shift_def ceil_d_def Let_def)
next
  show "calculateTotalSegments (Double 0 0) = 1"
    by (simp add: calculateTotalSegments_def TARGET_SEGMENT_DURATION_SEC_def fdiv_zero)
qed

theorem calculateTotalSegments_ceiling_witness:
  "mantissa (Double 7411 (- 2)) \<le> 2 ^ 53
   \<and> value_of (Double 7411 (- 2)) \<le> 2 ^ 53
   \<and> calculateTotalSegments (Double 7411 (- 2)) = 31"
proof -
  have "\<lceil>(7411 :: rat) / 4 / 60\<rceil> = 31"
    by (rule ceiling_unique) simp_all
  then show ?thesis
    using calculateTotalSegments_ceiling [of "Double 7411 (- 2)"]
    by (simp add: value_of_def)
qed

end
